theory Spec2Isabelle
  imports Complex_Main "HOL-Library.Word" "HOL-Library.AList"
begin

section \<open>Values, entries and float64\<close>

text \<open>
  Go's \<^verbatim>\<open>int\<close> is taken at 64 bits (\<^verbatim>\<open>maxUint = ^uint(0)\<close> on a 64-bit platform):
  a two's complement word, \<open>+\<close> wraps, comparisons are the signed ones.
\<close>

type_synonym go_int = "64 word"

text \<open>
  A \<^verbatim>\<open>float64\<close> is the real number it denotes, an infinity, or NaN. The two zeros are
  not told apart; Go's \<^verbatim>\<open><\<close> and \<^verbatim>\<open>>\<close> do not tell them apart either.
\<close>

datatype float64 = F64 real | PosInf | NegInf | NaN

text \<open>Go's \<^verbatim>\<open>a < b\<close> on float64: false as soon as one side is NaN.\<close>

fun f64_less :: "float64 \<Rightarrow> float64 \<Rightarrow> bool" where
  "f64_less NaN b = False"
| "f64_less a NaN = False"
| "f64_less (F64 x) (F64 y) = (x < y)"
| "f64_less (F64 x) PosInf = True"
| "f64_less (F64 x) NegInf = False"
| "f64_less PosInf b = False"
| "f64_less NegInf NegInf = False"
| "f64_less NegInf b = True"

definition f64_greater :: "float64 \<Rightarrow> float64 \<Rightarrow> bool" where
  "f64_greater a b = f64_less b a"

text \<open>
  \<^verbatim>\<open>float64(x)\<close> for an \<^verbatim>\<open>int\<close> x: exact up to 53 bits, beyond that rounded to
  the nearest value with a 53-bit significand, ties to even. No 64-bit integer
  overflows the exponent range.
\<close>

function bitlen_int :: "int \<Rightarrow> nat" where
  "bitlen_int a = (if a \<le> 0 then 0 else Suc (bitlen_int (a div 2)))"
  by pat_completeness auto
termination
  by (relation "measure nat") auto

declare bitlen_int.simps [simp del]

definition float64_of_int :: "int \<Rightarrow> float64" where
  "float64_of_int x =
     (let a = \<bar>x\<bar>; e = bitlen_int a - 53
      in if e = 0 then F64 (real_of_int x)
         else let p = 2 ^ e; q = a div p; r = a mod p; h = p div 2;
                  q' = (if h < r \<or> (r = h \<and> odd q) then q + 1 else q)
              in F64 (real_of_int (sgn x * (q' * p))))"

text \<open>
  The dynamic value of an \<^verbatim>\<open>interface{}\<close> entry value. \<open>VOther\<close> stands for a value of
  any dynamic type that the type switches of the package do not name (its argument is the
  type's name); \<open>VNull\<close> is the nil interface. A \<^verbatim>\<open>float32\<close> is held as the float64 it
  converts to, which is exact. A \<^verbatim>\<open>map[string]interface{}\<close> is an association list,
  ranged over in list order; the keys of a Go map are distinct.
\<close>

datatype val =
    VNull
  | VBool bool
  | VInt go_int
  | VFloat32 float64
  | VFloat64 float64
  | VString string
  | VArray "val list"
  | VObject "(string \<times> val) list"
  | VOther string

text \<open>\<^verbatim>\<open>vals.Entry\<close> (\<^verbatim>\<open>dsio.Entry\<close>).\<close>

record Entry =
  Index :: go_int
  Key :: string
  Value :: val

section \<open>The statistics tree\<close>

definition maxInt :: go_int where
  "maxInt = 9223372036854775807"

definition minInt :: go_int where
  "minInt = - maxInt - 1"

text \<open>
  The implementations of the \<^verbatim>\<open>statGenerator\<close> interface, one constructor each, the
  fields in the order of the struct:
  \<^item> \<open>ObjectStat children\<close>;
  \<^item> \<open>ArrayStat children\<close>;
  \<^item> \<open>NumericStat typ count min max\<close>;
  \<^item> \<open>StringStat count minLength maxLength\<close>;
  \<^item> \<open>BoolStat count trueCount falseCount\<close>;
  \<^item> \<open>NullStat count\<close>.
  The children map of an object node is an association list; a key that is new goes to
  its end.
\<close>

datatype statGenerator =
    ObjectStat "(string \<times> statGenerator) list"
  | ArrayStat "statGenerator list"
  | NumericStat string go_int float64 float64
  | StringStat go_int go_int go_int
  | BoolStat go_int go_int go_int
  | NullStat go_int

text \<open>A run-time panic of the Go program.\<close>

datatype panic = NilDereference | IndexOutOfRange

text \<open>
  \<^verbatim>\<open>newStatGenerator\<close>: the type switch on the value. Its default branch, the first in
  the source, takes nil and every type the other branches do not name: the last two
  equations.
\<close>

fun newStatGenerator :: "val \<Rightarrow> statGenerator" where
  "newStatGenerator (VFloat64 x) =
     NumericStat ''number'' 0 (float64_of_int (sint maxInt)) (float64_of_int (sint minInt))"
| "newStatGenerator (VFloat32 x) =
     NumericStat ''number'' 0 (float64_of_int (sint maxInt)) (float64_of_int (sint minInt))"
| "newStatGenerator (VInt x) =
     NumericStat ''integer'' 0 (float64_of_int (sint maxInt)) (float64_of_int (sint minInt))"
| "newStatGenerator (VString x) = StringStat 0 maxInt minInt"
| "newStatGenerator (VBool x) = BoolStat 0 0 0"
| "newStatGenerator (VObject x) = ObjectStat []"
| "newStatGenerator (VArray x) = ArrayStat []"
| "newStatGenerator VNull = NullStat 0"
| "newStatGenerator (VOther t) = NullStat 0"

text \<open>
  \<^verbatim>\<open>AddEntry\<close> of the six node types. A node is held by pointer and updated in place;
  here the updated node is returned, and written back into its parent's children.
  \<open>objectAddLoop\<close> is the \<^verbatim>\<open>range mapEntry\<close> loop of the object node, \<open>arrayAddLoop\<close>
  the \<^verbatim>\<open>range arrayEntry\<close> loop of the array node, with the index \<open>i\<close> of the next
  element. Calling a method of a missing child, or indexing the children past their end,
  panics.
\<close>

function AddEntry :: "statGenerator \<Rightarrow> Entry \<Rightarrow> panic + statGenerator"
  and objectAddLoop ::
    "(string \<times> statGenerator) list \<Rightarrow> (string \<times> val) list \<Rightarrow> panic + (string \<times> statGenerator) list"
  and arrayAddLoop ::
    "statGenerator list \<Rightarrow> nat \<Rightarrow> val list \<Rightarrow> panic + statGenerator list"
where
  "AddEntry (ObjectStat children) e =
     (case Value e of
        VObject mapEntry \<Rightarrow>
          (case objectAddLoop children mapEntry of
             Inl p \<Rightarrow> Inl p
           | Inr children' \<Rightarrow> Inr (ObjectStat children'))
      | _ \<Rightarrow> Inr (ObjectStat children))"
| "AddEntry (ArrayStat children) e =
     (case Value e of
        VArray arrayEntry \<Rightarrow>
          (case arrayAddLoop children 0 arrayEntry of
             Inl p \<Rightarrow> Inl p
           | Inr children' \<Rightarrow> Inr (ArrayStat children'))
      | _ \<Rightarrow> Inr (ArrayStat children))"
| "AddEntry (NumericStat typ count mn mx) e =
     (case (case Value e of
              VInt x \<Rightarrow> Some (float64_of_int (sint x))
            | VFloat32 x \<Rightarrow> Some x
            | VFloat64 x \<Rightarrow> Some x
            | _ \<Rightarrow> None) of
        None \<Rightarrow> Inr (NumericStat typ count mn mx)
      | Some v \<Rightarrow>
          (let mx' = (if f64_greater v mx then v else mx);
               mn' = (if f64_less v mn then v else mn)
           in Inr (NumericStat typ (count + 1) mn' mx')))"
| "AddEntry (StringStat count minLength maxLength) e =
     (case Value e of
        VString str \<Rightarrow>
          (let len = (of_nat (length str) :: go_int);
               minLength' = (if len <s minLength then len else minLength);
               maxLength' = (if maxLength <s len then len else maxLength)
           in Inr (StringStat (count + 1) minLength' maxLength'))
      | _ \<Rightarrow> Inr (StringStat count minLength maxLength))"
| "AddEntry (BoolStat count trueCount falseCount) e =
     (case Value e of
        VBool b \<Rightarrow>
          (if b then Inr (BoolStat (count + 1) (trueCount + 1) falseCount)
           else Inr (BoolStat (count + 1) trueCount (falseCount + 1)))
      | _ \<Rightarrow> Inr (BoolStat count trueCount falseCount))"
| "AddEntry (NullStat count) e =
     (case Value e of
        VNull \<Rightarrow> Inr (NullStat (count + 1))
      | _ \<Rightarrow> Inr (NullStat count))"
| "objectAddLoop children [] = Inr children"
| "objectAddLoop children ((key, v) # rest) =
     (let children1 =
            (if map_of children key = None then children @ [(key, newStatGenerator v)]
             else children)
      in case map_of children1 key of
           None \<Rightarrow> Inl NilDereference
         | Some child \<Rightarrow>
             (case AddEntry child \<lparr>Index = 0, Key = key, Value = v\<rparr> of
                Inl p \<Rightarrow> Inl p
              | Inr child' \<Rightarrow> objectAddLoop (AList.update key child' children1) rest))"
| "arrayAddLoop children i [] = Inr children"
| "arrayAddLoop children i (v # rest) =
     (let children1 =
            (if length children = i then children @ [newStatGenerator v] else children)
      in if length children1 \<le> i then Inl IndexOutOfRange
         else (case AddEntry (children1 ! i) \<lparr>Index = of_nat i, Key = [], Value = v\<rparr> of
                 Inl p \<Rightarrow> Inl p
               | Inr child' \<Rightarrow> arrayAddLoop (children1[i := child']) (Suc i) rest))"
  by pat_completeness auto
termination
  by (relation "measure (\<lambda>x. case x of
        Inl (s, e) \<Rightarrow> 2 * size (Value e)
      | Inr (Inl (ch, kvs)) \<Rightarrow> 2 * size_list (size_prod (\<lambda>k. 0) size) kvs + 1
      | Inr (Inr (ch, i, vs)) \<Rightarrow> 2 * size_list size vs + 1)") auto

text \<open>
  The value \<^verbatim>\<open>Stats()\<close> returns: an \<^verbatim>\<open>interface{}\<close> holding an int, a float64, a
  \<^verbatim>\<open>map[string]interface{}\<close> (an association list, in the order of the map literal or of
  the children) or a \<^verbatim>\<open>[]interface{}\<close>.
\<close>

datatype summary =
    SInt go_int
  | SFloat float64
  | SMap "(string \<times> summary) list"
  | SList "summary list"

fun Stats :: "statGenerator \<Rightarrow> summary" where
  "Stats (ObjectStat children) = SMap (map (\<lambda>(key, child). (key, Stats child)) children)"
| "Stats (ArrayStat children) = SList (map Stats children)"
| "Stats (NumericStat typ count mn mx) =
     (if count = 0 then SMap [(''count'', SInt 0)]
      else SMap [(''count'', SInt count), (''min'', SFloat mn), (''max'', SFloat mx)])"
| "Stats (StringStat count minLength maxLength) =
     (if count = 0 then SMap [(''count'', SInt 0)]
      else SMap [(''count'', SInt count), (''minLength'', SInt minLength),
                 (''maxLength'', SInt maxLength)])"
| "Stats (BoolStat count trueCount falseCount) =
     SMap [(''count'', SInt count), (''trueCount'', SInt trueCount),
           (''falseCount'', SInt falseCount)]"
| "Stats (NullStat count) = SMap [(''count'', SInt count)]"

text \<open>A Go \<^verbatim>\<open>error\<close> value that is not nil, with its message.\<close>

datatype error = Error string

text \<open>
  \<^verbatim>\<open>Close\<close> of the six node types. The result is the error returned (\<open>None\<close> is nil),
  together with the nodes whose \<^verbatim>\<open>Close\<close> method ran, in call order. \<open>closeObjectLoop\<close>
  and \<open>closeArrayLoop\<close> are the two \<^verbatim>\<open>range children\<close> loops, which return at the first
  error.
\<close>

fun Close :: "statGenerator \<Rightarrow> statGenerator list \<times> error option"
  and closeObjectLoop :: "(string \<times> statGenerator) list \<Rightarrow> statGenerator list \<times> error option"
  and closeArrayLoop :: "statGenerator list \<Rightarrow> statGenerator list \<times> error option"
where
  "Close (ObjectStat children) =
     (let (visited, err) = closeObjectLoop children in (ObjectStat children # visited, err))"
| "Close (ArrayStat children) =
     (let (visited, err) = closeArrayLoop children in (ArrayStat children # visited, err))"
| "Close (NumericStat typ count mn mx) = ([NumericStat typ count mn mx], None)"
| "Close (StringStat count minLength maxLength) = ([StringStat count minLength maxLength], None)"
| "Close (BoolStat count trueCount falseCount) = ([BoolStat count trueCount falseCount], None)"
| "Close (NullStat count) = ([NullStat count], None)"
| "closeObjectLoop [] = ([], None)"
| "closeObjectLoop ((key, child) # rest) =
     (case Close child of
        (visited, Some err) \<Rightarrow> (visited, Some err)
      | (visited, None) \<Rightarrow>
          (let (visited', err) = closeObjectLoop rest in (visited @ visited', err)))"
| "closeArrayLoop [] = ([], None)"
| "closeArrayLoop (child # rest) =
     (case Close child of
        (visited, Some err) \<Rightarrow> (visited, Some err)
      | (visited, None) \<Rightarrow>
          (let (visited', err) = closeArrayLoop rest in (visited @ visited', err)))"

section \<open>The aggregator\<close>

text \<open>
  The \<^verbatim>\<open>dsio.EntryReader\<close> interface, as the method table of an implementation whose
  state has type \<open>'r\<close>; \<open>'s\<close> is \<^verbatim>\<open>*dataset.Structure\<close>. \<^verbatim>\<open>ReadEntry\<close> returns both an
  entry and an error, as in Go, and the reader's next state.
\<close>

record ('r, 's) EntryReader =
  Structure_m :: "'r \<Rightarrow> 's"
  ReadEntry_m :: "'r \<Rightarrow> (Entry \<times> error option) \<times> 'r"
  Close_m :: "'r \<Rightarrow> error option \<times> 'r"

text \<open>
  \<^verbatim>\<open>BasicStatsGenerator\<close>: the field \<^verbatim>\<open>r\<close> is \<open>bsg_r\<close>, the state of the wrapped
  reader; the field \<^verbatim>\<open>stats\<close> is \<open>bsg_stats\<close>, \<open>None\<close> for the nil interface. The
  methods take the wrapped reader's method table first.
\<close>

record 'r BasicStatsGenerator =
  bsg_r :: 'r
  bsg_stats :: "statGenerator option"

definition NewBasicStatsGenerator :: "'r \<Rightarrow> 'r BasicStatsGenerator \<times> error option" where
  "NewBasicStatsGenerator rd = (\<lparr>bsg_r = rd, bsg_stats = None\<rparr>, None)"

definition BSG_Stats :: "'r BasicStatsGenerator \<Rightarrow> panic + summary" where
  "BSG_Stats g =
     (case bsg_stats g of
        None \<Rightarrow> Inl NilDereference
      | Some s \<Rightarrow> Inr (Stats s))"

definition BSG_Structure :: "('r, 's) EntryReader \<Rightarrow> 'r BasicStatsGenerator \<Rightarrow> 's" where
  "BSG_Structure I g = Structure_m I (bsg_r g)"

definition BSG_ReadEntry ::
  "('r, 's) EntryReader \<Rightarrow> 'r BasicStatsGenerator
     \<Rightarrow> panic + ((Entry \<times> error option) \<times> 'r BasicStatsGenerator)"
where
  "BSG_ReadEntry I g =
     (let ((ent, err), rd') = ReadEntry_m I (bsg_r g);
          g1 = g\<lparr>bsg_r := rd'\<rparr>
      in case err of
           Some x \<Rightarrow> Inr ((ent, Some x), g1)
         | None \<Rightarrow>
             (let g2 = (if bsg_stats g1 = None
                        then g1\<lparr>bsg_stats := Some (newStatGenerator (Value ent))\<rparr>
                        else g1)
              in case bsg_stats g2 of
                   None \<Rightarrow> Inl NilDereference
                 | Some s \<Rightarrow>
                     (case AddEntry s ent of
                        Inl p \<Rightarrow> Inl p
                      | Inr s' \<Rightarrow> Inr ((ent, None), g2\<lparr>bsg_stats := Some s'\<rparr>))))"

text \<open>
  \<^verbatim>\<open>Close\<close> of the aggregator: the nodes visited, the error of the wrapped reader's
  \<^verbatim>\<open>Close\<close>, and the aggregator with the reader visited.
\<close>

definition BSG_Close ::
  "('r, 's) EntryReader \<Rightarrow> 'r BasicStatsGenerator
     \<Rightarrow> panic + (statGenerator list \<times> error option \<times> 'r BasicStatsGenerator)"
where
  "BSG_Close I g =
     (case bsg_stats g of
        None \<Rightarrow> Inl NilDereference
      | Some s \<Rightarrow>
          (let (visited, ignored) = Close s;
               (err, rd') = Close_m I (bsg_r g)
           in Inr (visited, err, g\<lparr>bsg_r := rd'\<rparr>)))"

text \<open>
  \<open>reads I rd n\<close> are the results of the first \<open>n\<close> calls of \<^verbatim>\<open>ReadEntry\<close> on a reader
  in state \<open>rd\<close>; \<open>BSG_ReadEntries I g n\<close> calls the aggregator's \<^verbatim>\<open>ReadEntry\<close> \<open>n\<close>
  times and collects what it returned.
\<close>

fun reads :: "('r, 's) EntryReader \<Rightarrow> 'r \<Rightarrow> nat \<Rightarrow> (Entry \<times> error option) list" where
  "reads I rd 0 = []"
| "reads I rd (Suc n) = (let (res, rd') = ReadEntry_m I rd in res # reads I rd' n)"

fun BSG_ReadEntries ::
  "('r, 's) EntryReader \<Rightarrow> 'r BasicStatsGenerator \<Rightarrow> nat
     \<Rightarrow> panic + ((Entry \<times> error option) list \<times> 'r BasicStatsGenerator)"
where
  "BSG_ReadEntries I g 0 = Inr ([], g)"
| "BSG_ReadEntries I g (Suc n) =
     (case BSG_ReadEntry I g of
        Inl p \<Rightarrow> Inl p
      | Inr (res, g') \<Rightarrow>
          (case BSG_ReadEntries I g' n of
             Inl p \<Rightarrow> Inl p
           | Inr (rest, g'') \<Rightarrow> Inr (res # rest, g'')))"

text \<open>
  A reader for examples: its state is the list of results it has still to return; once
  the list is used up it returns the zero entry and the error \<open>EOF\<close>.
\<close>

definition scriptReader :: "'s \<Rightarrow> ((Entry \<times> error option) list, 's) EntryReader" where
  "scriptReader st =
     \<lparr>Structure_m = (\<lambda>rd. st),
      ReadEntry_m = (\<lambda>rd. case rd of
                             [] \<Rightarrow> ((\<lparr>Index = 0, Key = [], Value = VNull\<rparr>, Some (Error ''EOF'')), [])
                           | res # rd' \<Rightarrow> (res, rd')),
      Close_m = (\<lambda>rd. (None, rd))\<rparr>"

text \<open>
  Example data: the entries \<^verbatim>\<open>{"n":1}\<close>, ..., \<^verbatim>\<open>{"n":5}\<close> of a top-level array, and five
  entries \<^verbatim>\<open>{"nil":null}\<close>.
\<close>

definition entries_n :: "Entry list" where
  "entries_n =
     [\<lparr>Index = 0, Key = [], Value = VObject [(''n'', VInt 1)]\<rparr>,
      \<lparr>Index = 1, Key = [], Value = VObject [(''n'', VInt 2)]\<rparr>,
      \<lparr>Index = 2, Key = [], Value = VObject [(''n'', VInt 3)]\<rparr>,
      \<lparr>Index = 3, Key = [], Value = VObject [(''n'', VInt 4)]\<rparr>,
      \<lparr>Index = 4, Key = [], Value = VObject [(''n'', VInt 5)]\<rparr>]"

definition entries_nil :: "Entry list" where
  "entries_nil =
     [\<lparr>Index = 0, Key = [], Value = VObject [(''nil'', VNull)]\<rparr>,
      \<lparr>Index = 1, Key = [], Value = VObject [(''nil'', VNull)]\<rparr>,
      \<lparr>Index = 2, Key = [], Value = VObject [(''nil'', VNull)]\<rparr>,
      \<lparr>Index = 3, Key = [], Value = VObject [(''nil'', VNull)]\<rparr>,
      \<lparr>Index = 4, Key = [], Value = VObject [(''nil'', VNull)]\<rparr>]"

text \<open>
  The statistics root after the entries \<open>es\<close> were read with success, one after the
  other, from the root \<open>st\<close>: the lines of the aggregator's \<^verbatim>\<open>ReadEntry\<close> after the
  error check. The children of an object node are seeded and updated the same way.
\<close>

fun AddEntries :: "statGenerator option \<Rightarrow> Entry list \<Rightarrow> panic + statGenerator option" where
  "AddEntries st [] = Inr st"
| "AddEntries st (e # es) =
     (case AddEntry (case st of None \<Rightarrow> newStatGenerator (Value e) | Some s \<Rightarrow> s) e of
        Inl p \<Rightarrow> Inl p
      | Inr s' \<Rightarrow> AddEntries (Some s') es)"

text \<open>The value of a field of an object value.\<close>

fun fieldValue :: "val \<Rightarrow> string \<Rightarrow> val option" where
  "fieldValue (VObject m) key = map_of m key"
| "fieldValue v key = None"

section \<open>Variants of nodes and types of values\<close>

datatype variant = ObjectV | ArrayV | NumericV | StringV | BoolV | NullV

text \<open>The dynamic type of a \<^verbatim>\<open>statGenerator\<close>.\<close>

fun variant_of :: "statGenerator \<Rightarrow> variant" where
  "variant_of (ObjectStat children) = ObjectV"
| "variant_of (ArrayStat children) = ArrayV"
| "variant_of (NumericStat typ count mn mx) = NumericV"
| "variant_of (StringStat count minLength maxLength) = StringV"
| "variant_of (BoolStat count trueCount falseCount) = BoolV"
| "variant_of (NullStat count) = NullV"

text \<open>
  The case of the type switch of \<^verbatim>\<open>newStatGenerator\<close> that a value falls in: nil and
  the types the switch does not name fall in the default case.
\<close>

fun typeOf :: "val \<Rightarrow> variant" where
  "typeOf (VFloat64 x) = NumericV"
| "typeOf (VFloat32 x) = NumericV"
| "typeOf (VInt x) = NumericV"
| "typeOf (VString x) = StringV"
| "typeOf (VBool x) = BoolV"
| "typeOf (VObject x) = ObjectV"
| "typeOf (VArray x) = ArrayV"
| "typeOf VNull = NullV"
| "typeOf (VOther t) = NullV"

text \<open>The \<^verbatim>\<open>count\<close> field of a leaf node.\<close>

fun leaf_count :: "statGenerator \<Rightarrow> go_int option" where
  "leaf_count (NumericStat typ count mn mx) = Some count"
| "leaf_count (StringStat count minLength maxLength) = Some count"
| "leaf_count (BoolStat count trueCount falseCount) = Some count"
| "leaf_count (NullStat count) = Some count"
| "leaf_count (ObjectStat children) = None"
| "leaf_count (ArrayStat children) = None"

text \<open>All nodes of a statistics tree, a parent before its children.\<close>

fun all_nodes :: "statGenerator \<Rightarrow> statGenerator list" where
  "all_nodes (ObjectStat children) =
     ObjectStat children # concat (map (\<lambda>(key, child). all_nodes child) children)"
| "all_nodes (ArrayStat children) = ArrayStat children # concat (map all_nodes children)"
| "all_nodes (NumericStat typ count mn mx) = [NumericStat typ count mn mx]"
| "all_nodes (StringStat count minLength maxLength) = [StringStat count minLength maxLength]"
| "all_nodes (BoolStat count trueCount falseCount) = [BoolStat count trueCount falseCount]"
| "all_nodes (NullStat count) = [NullStat count]"

text \<open>
  The numeric runtime types \<^verbatim>\<open>int\<close>, \<^verbatim>\<open>float32\<close> and \<^verbatim>\<open>float64\<close>, with the value
  converted to float64; \<open>None\<close> for a value of any other type.
\<close>

fun numeric_value :: "val \<Rightarrow> float64 option" where
  "numeric_value (VInt x) = Some (float64_of_int (sint x))"
| "numeric_value (VFloat32 x) = Some x"
| "numeric_value (VFloat64 x) = Some x"
| "numeric_value v = None"

section \<open>The format dispatcher\<close>

text \<open>
  Modelled from the spec: the enumeration of data formats of a Schema Descriptor.
  \<^verbatim>\<open>dataset.Structure\<close>, \<^verbatim>\<open>dsio.NewEntryReader\<close> and \<^verbatim>\<open>dsio.NewEntryWriter\<close> are not
  among the source files; only their tests are.
\<close>

datatype DataFormat = CSVDataFormat | JSONDataFormat | CBORDataFormat | NativeDataFormat

text \<open>Modelled from the spec: the top-level type the root of a schema declares.\<close>

datatype topLevelType = TopArray | TopObject

text \<open>
  Modelled from the spec: the Schema Descriptor (\<^verbatim>\<open>dataset.Structure\<close>), with its format,
  its format configuration and its schema; a schema that is absent or malformed is
  \<open>None\<close>.
\<close>

record Structure =
  Format :: string
  FormatConfig :: "(string \<times> val) list"
  Schema :: "topLevelType option"

text \<open>
  Modelled from the spec: the recognized values of the format, under the names the
  tests give them.
\<close>

definition ParseDataFormat :: "string \<Rightarrow> DataFormat option" where
  "ParseDataFormat f =
     (if f = ''csv'' then Some CSVDataFormat
      else if f = ''json'' then Some JSONDataFormat
      else if f = ''cbor'' then Some CBORDataFormat
      else if f = ''native'' then Some NativeDataFormat
      else None)"

text \<open>
  Modelled from the spec: the codec a dispatcher constructs, with the format, the Schema
  Descriptor it was constructed with, and the byte stream (or sink) it was given.
\<close>

record Codec =
  codec_format :: DataFormat
  codec_structure :: Structure
  codec_bytes :: "8 word list"

text \<open>
  Modelled from the spec: the checks of section 4.2 in the order it lists them. The
  result is paired with the number of bytes of the stream that construction has read.
  The spec gives the message of the first error only.
\<close>

definition NewEntryReader :: "Structure \<Rightarrow> 8 word list \<Rightarrow> (error + Codec) \<times> nat" where
  "NewEntryReader st stream =
     (if Format st = [] then (Inl (Error ''structure must have a data format''), 0)
      else case ParseDataFormat (Format st) of
             None \<Rightarrow> (Inl (Error ''unrecognized data format''), 0)
           | Some f \<Rightarrow>
               (case Schema st of
                  None \<Rightarrow> (Inl (Error ''invalid schema''), 0)
                | Some t \<Rightarrow>
                    (Inr \<lparr>codec_format = f, codec_structure = st, codec_bytes = stream\<rparr>, 0)))"

text \<open>
  Modelled from the spec: the same checks for a writer; the number is the count of bytes
  that construction has written to the sink.
\<close>

definition NewEntryWriter :: "Structure \<Rightarrow> 8 word list \<Rightarrow> (error + Codec) \<times> nat" where
  "NewEntryWriter st sink =
     (if Format st = [] then (Inl (Error ''structure must have a data format''), 0)
      else case ParseDataFormat (Format st) of
             None \<Rightarrow> (Inl (Error ''unrecognized data format''), 0)
           | Some f \<Rightarrow>
               (case Schema st of
                  None \<Rightarrow> (Inl (Error ''invalid schema''), 0)
                | Some t \<Rightarrow>
                    (Inr \<lparr>codec_format = f, codec_structure = st, codec_bytes = sink\<rparr>, 0)))"

section \<open>Helper lemmas\<close>

lemma float64_of_maxInt: "float64_of_int (sint maxInt) = F64 9223372036854775808"
  by code_simp

lemma float64_of_minInt: "float64_of_int (sint minInt) = F64 (- 9223372036854775808)"
  by code_simp

text \<open>\<^verbatim>\<open>AddEntry\<close> never panics: a child looked up was stored just before, and the
  index of an array child is below the length of the children.\<close>

lemma AddEntry_no_panic:
  "\<exists>s'. AddEntry s e = Inr s'"
  "\<exists>ch'. objectAddLoop ch kvs = Inr ch'"
  "i \<le> length chs \<Longrightarrow> \<exists>ch'. arrayAddLoop chs i vs = Inr ch'"
proof (induction s e and ch kvs and chs i vs rule: AddEntry_objectAddLoop_arrayAddLoop.induct)
  case (1 children e)
  then show ?case by (cases "Value e") auto
next
  case (2 children e)
  then show ?case by (cases "Value e") auto
next
  case (3 ty count mn mx e)
  then show ?case by (cases "Value e") (auto simp: Let_def)
next
  case (4 count minLength maxLength e)
  then show ?case by (cases "Value e") (auto simp: Let_def)
next
  case (5 count trueCount falseCount e)
  then show ?case by (cases "Value e") auto
next
  case (6 count e)
  then show ?case by (cases "Value e") auto
next
  case (7 children)
  then show ?case by simp
next
  case (8 children key v rest)
  define children1 where
    "children1 = (if map_of children key = None then children @ [(key, newStatGenerator v)] else children)"
  obtain child where child: "map_of children1 key = Some child"
    by (cases "map_of children key") (auto simp: children1_def map_add_Some_iff)
  from 8(1) [OF children1_def child]
  obtain child' where c': "AddEntry child \<lparr>Index = 0, Key = key, Value = v\<rparr> = Inr child'"
    by blast
  from 8(2) [OF children1_def child c']
  show ?case using child c' by (simp add: children1_def [symmetric] Let_def)
next
  case (9 children i)
  then show ?case by simp
next
  case (10 children i v rest)
  define children1 where
    "children1 = (if length children = i then children @ [newStatGenerator v] else children)"
  have len: "\<not> length children1 \<le> i"
    using 10(3) by (auto simp: children1_def)
  from 10(1) [OF children1_def len]
  obtain child' where c': "AddEntry (children1 ! i) \<lparr>Index = of_nat i, Key = [], Value = v\<rparr> = Inr child'"
    by blast
  have "Suc i \<le> length (children1[i := child'])" using len by simp
  from 10(2) [OF children1_def len c' this]
  show ?case using len c' by (simp add: children1_def [symmetric] Let_def)
qed

text \<open>The variant of a node is the one its first value selected, at every step.\<close>

lemma variant_newStatGenerator: "variant_of (newStatGenerator v) = typeOf v"
  by (cases v) simp_all

lemma AddEntry_variant: "AddEntry s e = Inr s' \<Longrightarrow> variant_of s' = variant_of s"
  by (cases s; cases "Value e") (auto simp: Let_def split: sum.splits if_splits)

lemma AddEntry_other_type: "typeOf (Value e) \<noteq> variant_of s \<Longrightarrow> AddEntry s e = Inr s"
  by (cases s; cases "Value e") auto

text \<open>No \<^verbatim>\<open>Close\<close> returns an error, so no loop stops early.\<close>

lemma Close_all:
  "Close s = (all_nodes s, None)"
  "closeObjectLoop ch = (concat (map (\<lambda>(key, child). all_nodes child) ch), None)"
  "closeArrayLoop chs = (concat (map all_nodes chs), None)"
  by (induction s and ch and chs rule: Close_closeObjectLoop_closeArrayLoop.induct) simp_all

text \<open>What a successful read does to the aggregator.\<close>

lemma BSG_ReadEntry_success:
  assumes "ReadEntry_m I (bsg_r g) = ((ent, None), rd')"
  shows "\<exists>s'. AddEntry (case bsg_stats g of None \<Rightarrow> newStatGenerator (Value ent) | Some s \<Rightarrow> s) ent
               = Inr s'
             \<and> BSG_ReadEntry I g = Inr ((ent, None), g\<lparr>bsg_r := rd', bsg_stats := Some s'\<rparr>)"
proof -
  let ?s = "case bsg_stats g of None \<Rightarrow> newStatGenerator (Value ent) | Some s \<Rightarrow> s"
  obtain s' where s': "AddEntry ?s ent = Inr s'"
    using AddEntry_no_panic(1) by blast
  with assms have "BSG_ReadEntry I g = Inr ((ent, None), g\<lparr>bsg_r := rd', bsg_stats := Some s'\<rparr>)"
    by (cases "bsg_stats g") (simp_all add: BSG_ReadEntry_def)
  with s' show ?thesis by blast
qed

text \<open>One round of the loop of an object node, and the children after the loop.\<close>

lemma objectAddLoop_step:
  "\<exists>child'. AddEntry (case map_of ch key of None \<Rightarrow> newStatGenerator v | Some c \<Rightarrow> c)
                 \<lparr>Index = 0, Key = key, Value = v\<rparr> = Inr child'
      \<and> (\<exists>ch1. map_of ch1 = (map_of ch)(key \<mapsto> child')
              \<and> objectAddLoop ch ((key, v) # rest) = objectAddLoop ch1 rest)"
proof -
  let ?child = "case map_of ch key of None \<Rightarrow> newStatGenerator v | Some c \<Rightarrow> c"
  define children1 where
    "children1 = (if map_of ch key = None then ch @ [(key, newStatGenerator v)] else ch)"
  have look: "map_of children1 key = Some ?child"
    by (cases "map_of ch key") (auto simp: children1_def map_add_Some_iff)
  obtain child' where c': "AddEntry ?child \<lparr>Index = 0, Key = key, Value = v\<rparr> = Inr child'"
    using AddEntry_no_panic(1) by blast
  have "map_of (AList.update key child' children1) = (map_of children1)(key \<mapsto> child')"
    by (rule update_conv')
  also have "\<dots> = (map_of ch)(key \<mapsto> child')"
    by (rule ext) (auto simp: children1_def map_add_def split: option.splits)
  finally have m: "map_of (AList.update key child' children1) = (map_of ch)(key \<mapsto> child')" .
  have "objectAddLoop ch ((key, v) # rest) = objectAddLoop (AList.update key child' children1) rest"
    using look c' by (simp add: children1_def [symmetric] Let_def)
  with c' m show ?thesis by blast
qed

lemma objectAddLoop_children:
  assumes "distinct (map fst kvs)" and "objectAddLoop ch kvs = Inr ch'"
  shows "(k \<notin> fst ` set kvs \<longrightarrow> map_of ch' k = map_of ch k)
       \<and> (\<forall>v. (k, v) \<in> set kvs \<longrightarrow>
            (\<exists>child'. AddEntry (case map_of ch k of None \<Rightarrow> newStatGenerator v | Some c \<Rightarrow> c)
                         \<lparr>Index = 0, Key = k, Value = v\<rparr> = Inr child'
                     \<and> map_of ch' k = Some child'))"
  using assms
proof (induction kvs arbitrary: ch)
  case Nil
  then show ?case by simp
next
  case (Cons kv rest)
  obtain key v where kv: "kv = (key, v)" by (cases kv)
  from objectAddLoop_step [where ch = ch and key = key and v = v and rest = rest] obtain child' ch1 where
    c': "AddEntry (case map_of ch key of None \<Rightarrow> newStatGenerator v | Some c \<Rightarrow> c)
           \<lparr>Index = 0, Key = key, Value = v\<rparr> = Inr child'"
    and m: "map_of ch1 = (map_of ch)(key \<mapsto> child')"
    and l: "objectAddLoop ch ((key, v) # rest) = objectAddLoop ch1 rest"
    by blast
  from Cons.prems kv l have r: "objectAddLoop ch1 rest = Inr ch'" by simp
  from Cons.prems kv have d: "distinct (map fst rest)" and nk: "key \<notin> fst ` set rest" by auto
  note IH = Cons.IH [OF d r]
  show ?case
  proof (cases "k = key")
    case True
    with IH nk have "map_of ch' key = Some child'" by (simp add: m)
    moreover from nk True have "\<And>v'. (k, v') \<in> set (kv # rest) \<Longrightarrow> v' = v"
      by (auto simp: kv image_iff)
    ultimately show ?thesis using True c' kv by auto
  next
    case False
    with IH show ?thesis by (auto simp: kv m)
  qed
qed

text \<open>The children of an object node never hold a key twice, as in a Go map.\<close>

lemma objectAddLoop_distinct:
  assumes "distinct (map fst ch)" and "objectAddLoop ch kvs = Inr ch'"
  shows "distinct (map fst ch')"
  using assms
proof (induction kvs arbitrary: ch)
  case Nil
  then show ?case by simp
next
  case (Cons kv rest)
  obtain key v where kv: "kv = (key, v)" by (cases kv)
  define children1 where
    "children1 = (if map_of ch key = None then ch @ [(key, newStatGenerator v)] else ch)"
  have d1: "distinct (map fst children1)"
    using Cons.prems(1) by (auto simp: children1_def map_of_eq_None_iff)
  from Cons.prems(2) obtain child' where
    "objectAddLoop (AList.update key child' children1) rest = Inr ch'"
    by (auto simp: kv children1_def [symmetric] Let_def split: option.splits sum.splits)
  moreover have "distinct (map fst (AList.update key child' children1))"
    using d1 by (rule distinct_update)
  ultimately show ?case using Cons.IH by blast
qed

text \<open>One round of the loop of an array node, and the children after the loop.\<close>

lemma arrayAddLoop_step:
  assumes "i \<le> length chs"
  shows "\<exists>child'. AddEntry (if i < length chs then chs ! i else newStatGenerator v)
                 \<lparr>Index = of_nat i, Key = [], Value = v\<rparr> = Inr child'
      \<and> (\<exists>chs1. length chs1 = max (length chs) (Suc i) \<and> chs1 ! i = child'
              \<and> (\<forall>j. j \<noteq> i \<and> j < length chs \<longrightarrow> chs1 ! j = chs ! j)
              \<and> arrayAddLoop chs i (v # rest) = arrayAddLoop chs1 (Suc i) rest)"
proof -
  define children1 where
    "children1 = (if length chs = i then chs @ [newStatGenerator v] else chs)"
  have len: "length children1 = max (length chs) (Suc i)"
    using assms by (auto simp: children1_def)
  have at: "children1 ! i = (if i < length chs then chs ! i else newStatGenerator v)"
    using assms by (auto simp: children1_def)
  have old: "j < length chs \<Longrightarrow> children1 ! j = chs ! j" for j
    by (auto simp: children1_def nth_append)
  obtain child' where c': "AddEntry (children1 ! i) \<lparr>Index = of_nat i, Key = [], Value = v\<rparr> = Inr child'"
    using AddEntry_no_panic(1) by blast
  let ?chs1 = "children1[i := child']"
  have 1: "arrayAddLoop chs i (v # rest) = arrayAddLoop ?chs1 (Suc i) rest"
    using len c' by (simp add: children1_def [symmetric] Let_def)
  have 2: "length ?chs1 = max (length chs) (Suc i)" using len by simp
  have 3: "?chs1 ! i = child'" using len by simp
  have 4: "\<forall>j. j \<noteq> i \<and> j < length chs \<longrightarrow> ?chs1 ! j = chs ! j"
    using old by simp
  from c' at have 5: "AddEntry (if i < length chs then chs ! i else newStatGenerator v)
                 \<lparr>Index = of_nat i, Key = [], Value = v\<rparr> = Inr child'"
    by simp
  from 1 2 3 4 have "\<exists>chs1. length chs1 = max (length chs) (Suc i) \<and> chs1 ! i = child'
              \<and> (\<forall>j. j \<noteq> i \<and> j < length chs \<longrightarrow> chs1 ! j = chs ! j)
              \<and> arrayAddLoop chs i (v # rest) = arrayAddLoop chs1 (Suc i) rest"
    by (intro exI [of _ ?chs1]) simp
  with 5 show ?thesis by (intro exI [of _ child']) simp
qed

lemma arrayAddLoop_children:
  assumes "i \<le> length chs" and "arrayAddLoop chs i vs = Inr chs'"
  shows "length chs' = max (length chs) (i + length vs)
       \<and> (\<forall>j < length chs. j < i \<or> i + length vs \<le> j \<longrightarrow> chs' ! j = chs ! j)
       \<and> (\<forall>j < length vs.
             AddEntry (if i + j < length chs then chs ! (i + j) else newStatGenerator (vs ! j))
               \<lparr>Index = of_nat (i + j), Key = [], Value = vs ! j\<rparr> = Inr (chs' ! (i + j)))"
  using assms
proof (induction vs arbitrary: chs i)
  case Nil
  then show ?case by simp
next
  case (Cons v rest)
  from arrayAddLoop_step [OF Cons.prems(1), where v = v and rest = rest] obtain child' chs1 where
    c': "AddEntry (if i < length chs then chs ! i else newStatGenerator v)
           \<lparr>Index = of_nat i, Key = [], Value = v\<rparr> = Inr child'"
    and len1: "length chs1 = max (length chs) (Suc i)"
    and at1: "chs1 ! i = child'"
    and old1: "\<forall>j. j \<noteq> i \<and> j < length chs \<longrightarrow> chs1 ! j = chs ! j"
    and l: "arrayAddLoop chs i (v # rest) = arrayAddLoop chs1 (Suc i) rest"
    by blast
  from Cons.prems l have r: "arrayAddLoop chs1 (Suc i) rest = Inr chs'" by simp
  have le1: "Suc i \<le> length chs1" using len1 by simp
  note IH = Cons.IH [OF le1 r]
  have A: "length chs' = max (length chs) (i + length (v # rest))"
    using IH len1 by auto
  have B: "chs' ! j = chs ! j" if "j < length chs" "j < i \<or> i + length (v # rest) \<le> j" for j
  proof -
    from that len1 have "j < length chs1" "j < Suc i \<or> Suc i + length rest \<le> j" by auto
    with IH have "chs' ! j = chs1 ! j" by blast
    moreover from that have "j \<noteq> i" by auto
    ultimately show ?thesis using old1 that by simp
  qed
  have C: "AddEntry (if i + j < length chs then chs ! (i + j) else newStatGenerator ((v # rest) ! j))
               \<lparr>Index = of_nat (i + j), Key = [], Value = (v # rest) ! j\<rparr> = Inr (chs' ! (i + j))"
    if "j < length (v # rest)" for j
  proof (cases j)
    case 0
    have "i < length chs1" using len1 by simp
    with IH have "chs' ! i = chs1 ! i" by simp
    with c' at1 0 show ?thesis by (simp split: if_splits)
  next
    case (Suc j')
    with that have j': "j' < length rest" by simp
    with IH have "AddEntry (if Suc i + j' < length chs1 then chs1 ! (Suc i + j') else newStatGenerator (rest ! j'))
               \<lparr>Index = of_nat (Suc i + j'), Key = [], Value = rest ! j'\<rparr> = Inr (chs' ! (Suc i + j'))"
      by blast
    moreover have "(Suc i + j' < length chs1) = (i + j < length chs)"
      using len1 Suc by auto
    moreover have "i + j < length chs \<Longrightarrow> chs1 ! (Suc i + j') = chs ! (i + j)"
      using old1 Suc by simp
    ultimately show ?thesis using Suc
      by (auto simp del: of_nat_Suc of_nat_add split: if_splits)
  qed
  from A B C show ?case by blast
qed


text \<open>Below 2 to the 53 the conversion of an int to float64 is exact.\<close>

lemma bitlen_int_le: "a < 2 ^ n \<Longrightarrow> bitlen_int a \<le> n"
proof (induction n arbitrary: a)
  case 0
  then show ?case by (simp add: bitlen_int.simps [of a])
next
  case (Suc n)
  show ?case
  proof (cases "a \<le> 0")
    case True
    then show ?thesis by (simp add: bitlen_int.simps [of a])
  next
    case False
    from Suc.prems have "a div 2 < 2 ^ n" by simp
    from Suc.IH [OF this] False show ?thesis by (simp add: bitlen_int.simps [of a])
  qed
qed

lemma float64_of_int_exact:
  assumes "\<bar>x\<bar> < 2 ^ 53"
  shows "float64_of_int x = F64 (real_of_int x)"
  using bitlen_int_le [OF assms] by (simp add: float64_of_int_def Let_def)

text \<open>
  Reads that succeed: the aggregator returns the entries, and its root is the one
  \<open>AddEntries\<close> computes. The child of the root for a field is what \<open>AddEntries\<close>
  computes from the values of the field.
\<close>

lemma length_reads: "length (reads I rd n) = n"
  by (induction n arbitrary: rd) (simp_all add: Let_def split: prod.splits)

lemma BSG_ReadEntries_success:
  assumes "reads I (bsg_r g) n = map (\<lambda>e. (e, None)) es"
  shows "\<exists>st' rd'. AddEntries (bsg_stats g) es = Inr st'
           \<and> BSG_ReadEntries I g n
               = Inr (map (\<lambda>e. (e, None)) es, g\<lparr>bsg_r := rd', bsg_stats := st'\<rparr>)"
  using assms
proof (induction n arbitrary: g es)
  case 0
  then have "es = []" by simp
  moreover have "g = g\<lparr>bsg_r := bsg_r g, bsg_stats := bsg_stats g\<rparr>" by simp
  ultimately show ?case by (metis AddEntries.simps(1) BSG_ReadEntries.simps(1) list.simps(8))
next
  case (Suc n)
  obtain res rd1 where rd: "ReadEntry_m I (bsg_r g) = (res, rd1)"
    by (cases "ReadEntry_m I (bsg_r g)")
  with Suc.prems have eq: "res # reads I rd1 n = map (\<lambda>e. (e, None)) es" by simp
  then obtain e es' where es: "es = e # es'" and res: "res = (e, None)"
    and rest: "reads I rd1 n = map (\<lambda>e. (e, None)) es'"
    by (cases es) auto
  from BSG_ReadEntry_success [OF rd [unfolded res]] obtain s' where
    s': "AddEntry (case bsg_stats g of None \<Rightarrow> newStatGenerator (Value e) | Some s \<Rightarrow> s) e = Inr s'"
    and r: "BSG_ReadEntry I g = Inr ((e, None), g\<lparr>bsg_r := rd1, bsg_stats := Some s'\<rparr>)"
    by blast
  let ?g1 = "g\<lparr>bsg_r := rd1, bsg_stats := Some s'\<rparr>"
  from rest have "reads I (bsg_r ?g1) n = map (\<lambda>e. (e, None)) es'" by simp
  from Suc.IH [OF this] obtain st' rd' where
    a: "AddEntries (Some s') es' = Inr st'"
    and b: "BSG_ReadEntries I ?g1 n = Inr (map (\<lambda>e. (e, None)) es', ?g1\<lparr>bsg_r := rd', bsg_stats := st'\<rparr>)"
    by auto
  have "AddEntries (bsg_stats g) es = Inr st'"
    using s' a by (simp add: es)
  moreover have "BSG_ReadEntries I g (Suc n)
               = Inr (map (\<lambda>e. (e, None)) es, g\<lparr>bsg_r := rd', bsg_stats := st'\<rparr>)"
    using r b by (simp add: es)
  ultimately show ?case by blast
qed

lemma AddEntries_field:
  assumes "\<forall>e \<in> set es. \<exists>m. Value e = VObject m \<and> distinct (map fst m) \<and> map_of m key \<noteq> None"
    and "AddEntries (Some (ObjectStat ch)) es = Inr st'"
  shows "\<exists>ch'. st' = Some (ObjectStat ch')
           \<and> AddEntries (map_of ch key)
                (map (\<lambda>e. \<lparr>Index = 0, Key = key, Value = the (fieldValue (Value e) key)\<rparr>) es)
               = Inr (map_of ch' key)"
  using assms
proof (induction es arbitrary: ch)
  case Nil
  then show ?case by auto
next
  case (Cons e es)
  from Cons.prems(1) obtain m x where v: "Value e = VObject m" and d: "distinct (map fst m)"
    and x: "map_of m key = Some x"
    by auto
  obtain ch1 where l: "objectAddLoop ch m = Inr ch1"
    using AddEntry_no_panic(2) by blast
  from x have "(key, x) \<in> set m" by (rule map_of_SomeD)
  with objectAddLoop_children [OF d l, of key] obtain child' where
    c': "AddEntry (case map_of ch key of None \<Rightarrow> newStatGenerator x | Some c \<Rightarrow> c)
           \<lparr>Index = 0, Key = key, Value = x\<rparr> = Inr child'"
    and m1: "map_of ch1 key = Some child'"
    by blast
  from Cons.prems(2) v l have r: "AddEntries (Some (ObjectStat ch1)) es = Inr st'" by simp
  from Cons.prems(1) have
    "\<forall>e \<in> set es. \<exists>m. Value e = VObject m \<and> distinct (map fst m) \<and> map_of m key \<noteq> None"
    by simp
  from Cons.IH [OF this r] obtain ch' where
    st': "st' = Some (ObjectStat ch')"
    and f: "AddEntries (map_of ch1 key)
              (map (\<lambda>e. \<lparr>Index = 0, Key = key, Value = the (fieldValue (Value e) key)\<rparr>) es)
            = Inr (map_of ch' key)"
    by blast
  have "AddEntries (map_of ch key)
          (map (\<lambda>e. \<lparr>Index = 0, Key = key, Value = the (fieldValue (Value e) key)\<rparr>) (e # es))
        = Inr (map_of ch' key)"
    using c' f by (cases "map_of ch key") (simp_all add: v x m1)
  with st' show ?case by blast
qed

lemma AddEntries_root_object:
  assumes "Value e = VObject m"
  shows "AddEntries None (e # es) = AddEntries (Some (ObjectStat [])) (e # es)"
  using assms by simp

lemma Stats_field:
  "Stats (ObjectStat ch) = SMap (map (\<lambda>(key, child). (key, Stats child)) ch)
   \<and> map_of (map (\<lambda>(key, child). (key, Stats child)) ch) key = map_option Stats (map_of ch key)"
  by (simp add: map_of_map)

lemma AddEntry_numeric:
  "AddEntry (NumericStat ty count mn mx) e =
     (case numeric_value (Value e) of
        None \<Rightarrow> Inr (NumericStat ty count mn mx)
      | Some v \<Rightarrow> Inr (NumericStat ty (count + 1) (if f64_less v mn then v else mn)
                                                 (if f64_greater v mx then v else mx)))"
  by (cases "Value e") (simp_all add: Let_def)

lemma newStatGenerator_numeric:
  assumes "numeric_value x \<noteq> None"
  shows "\<exists>ty. newStatGenerator x
            = NumericStat ty 0 (F64 9223372036854775808) (F64 (- 9223372036854775808))"
  using assms by (cases x) (simp_all add: float64_of_maxInt float64_of_minInt)


lemma field_summary:
  assumes rd: "reads I rd n = map (\<lambda>e. (e, None)) es" and ne: "es \<noteq> []"
    and objs: "\<forall>e \<in> set es. \<exists>m. Value e = VObject m \<and> distinct (map fst m) \<and> map_of m key \<noteq> None"
  shows "\<exists>g ch. BSG_ReadEntries I (fst (NewBasicStatsGenerator rd)) n
                  = Inr (map (\<lambda>e. (e, None)) es, g)
               \<and> bsg_stats g = Some (ObjectStat ch)
               \<and> AddEntries None
                    (map (\<lambda>x. \<lparr>Index = 0, Key = key, Value = x\<rparr>)
                       (map (\<lambda>e. the (fieldValue (Value e) key)) es))
                   = Inr (map_of ch key)"
proof -
  let ?g0 = "fst (NewBasicStatsGenerator rd)"
  have g0: "bsg_r ?g0 = rd" "bsg_stats ?g0 = None"
    by (simp_all add: NewBasicStatsGenerator_def)
  from rd g0 have "reads I (bsg_r ?g0) n = map (\<lambda>e. (e, None)) es" by simp
  from BSG_ReadEntries_success [OF this] obtain st' rd' where
    a: "AddEntries None es = Inr st'"
    and b: "BSG_ReadEntries I ?g0 n
              = Inr (map (\<lambda>e. (e, None)) es, ?g0\<lparr>bsg_r := rd', bsg_stats := st'\<rparr>)"
    by (auto simp: g0)
  from ne obtain e es' where es: "es = e # es'" by (cases es) auto
  with objs obtain m where "Value e = VObject m" by auto
  from AddEntries_root_object [OF this] a
  have "AddEntries (Some (ObjectStat [])) es = Inr st'" by (simp add: es)
  from AddEntries_field [OF objs this] obtain ch where
    st': "st' = Some (ObjectStat ch)"
    and f: "AddEntries (map_of [] key)
              (map (\<lambda>e. \<lparr>Index = 0, Key = key, Value = the (fieldValue (Value e) key)\<rparr>) es)
            = Inr (map_of ch key)"
    by blast
  from f have "AddEntries None
                    (map (\<lambda>x. \<lparr>Index = 0, Key = key, Value = x\<rparr>)
                       (map (\<lambda>e. the (fieldValue (Value e) key)) es))
                   = Inr (map_of ch key)"
    by (simp add: comp_def)
  moreover have "bsg_stats (?g0\<lparr>bsg_r := rd', bsg_stats := st'\<rparr>) = Some (ObjectStat ch)"
    by (simp add: st')
  ultimately show ?thesis using b by blast
qed

lemma AddEntries_one_to_five:
  assumes "map numeric_value xs = [Some (F64 1), Some (F64 2), Some (F64 3), Some (F64 4), Some (F64 5)]"
  shows "\<exists>ty. AddEntries None (map (\<lambda>x. \<lparr>Index = 0, Key = key, Value = x\<rparr>) xs)
            = Inr (Some (NumericStat ty 5 (F64 1) (F64 5)))"
proof -
  from assms obtain x1 x2 x3 x4 x5 where xs: "xs = [x1, x2, x3, x4, x5]"
    and n: "numeric_value x1 = Some (F64 1)" "numeric_value x2 = Some (F64 2)"
      "numeric_value x3 = Some (F64 3)" "numeric_value x4 = Some (F64 4)"
      "numeric_value x5 = Some (F64 5)"
    by (auto simp: map_eq_Cons_conv)
  from n(1) newStatGenerator_numeric [of x1] obtain ty where
    new: "newStatGenerator x1
            = NumericStat ty 0 (F64 9223372036854775808) (F64 (- 9223372036854775808))"
    by auto
  have "AddEntries None (map (\<lambda>x. \<lparr>Index = 0, Key = key, Value = x\<rparr>) xs)
            = Inr (Some (NumericStat ty 5 (F64 1) (F64 5)))"
    by (simp add: xs new n AddEntry_numeric f64_greater_def del: AddEntry.simps)
  then show ?thesis by blast
qed

lemma AddEntries_five_nulls:
  assumes "length xs = 5" and "\<forall>x \<in> set xs. x = VNull"
  shows "AddEntries None (map (\<lambda>x. \<lparr>Index = 0, Key = key, Value = x\<rparr>) xs)
            = Inr (Some (NullStat 5))"
proof -
  from assms(1) obtain x1 x2 x3 x4 x5 where xs: "xs = [x1, x2, x3, x4, x5]"
    by (auto simp: length_Suc_conv eval_nat_numeral)
  with assms(2) have "xs = [VNull, VNull, VNull, VNull, VNull]" by simp
  then show ?thesis by simp
qed

section \<open>The aggregator as a transparent wrapper\<close>

text \<open>
  Claim C5. When the wrapped reader's \<^verbatim>\<open>ReadEntry\<close> returns an error, the aggregator's
  \<^verbatim>\<open>ReadEntry\<close> returns the same entry and error, and the statistics tree is what it
  was before the call: no count changes, no node is created, an unseeded root stays
  unseeded. Only the wrapped reader has moved on.
\<close>

theorem C5_failed_read_is_passed_on:
  assumes "ReadEntry_m I (bsg_r g) = ((ent, Some x), rd')"
  shows "\<exists>g'. BSG_ReadEntry I g = Inr ((ent, Some x), g') \<and>
           bsg_stats g' = bsg_stats g \<and> bsg_r g' = rd'"
  using assms by (simp add: BSG_ReadEntry_def)

theorem C5_failed_read_is_passed_on_witness:
  "ReadEntry_m (scriptReader ())
     (bsg_r \<lparr>bsg_r = [(\<lparr>Index = 7, Key = ''k'', Value = VInt 3\<rparr>, Some (Error ''bad row''))],
             bsg_stats = Some (NullStat 2)\<rparr>)
     = ((\<lparr>Index = 7, Key = ''k'', Value = VInt 3\<rparr>, Some (Error ''bad row'')), [])
   \<and> (\<exists>g'. BSG_ReadEntry (scriptReader ())
             \<lparr>bsg_r = [(\<lparr>Index = 7, Key = ''k'', Value = VInt 3\<rparr>, Some (Error ''bad row''))],
              bsg_stats = Some (NullStat 2)\<rparr>
            = Inr ((\<lparr>Index = 7, Key = ''k'', Value = VInt 3\<rparr>, Some (Error ''bad row'')), g')
          \<and> bsg_stats g' = Some (NullStat 2) \<and> bsg_r g' = [])"
proof -
  let ?e = "\<lparr>Index = 7, Key = ''k'', Value = VInt 3\<rparr>"
  let ?g = "\<lparr>bsg_r = [(?e, Some (Error ''bad row''))], bsg_stats = Some (NullStat 2)\<rparr>"
  have h: "ReadEntry_m (scriptReader ()) (bsg_r ?g) = ((?e, Some (Error ''bad row'')), [])"
    by (simp add: scriptReader_def)
  from C5_failed_read_is_passed_on [OF h] h show ?thesis by simp
qed

text \<open>
  Claim C6. When the wrapped reader's \<^verbatim>\<open>ReadEntry\<close> succeeds, the aggregator's
  \<^verbatim>\<open>ReadEntry\<close> returns (it does not panic), and it returns the very entry the wrapped
  reader produced, with a nil error; the aggregator's \<^verbatim>\<open>Structure\<close> is the wrapped
  reader's \<^verbatim>\<open>Structure\<close>.
\<close>

theorem C6_successful_read_is_forwarded:
  "(ReadEntry_m I (bsg_r g) = ((ent, None), rd') \<longrightarrow>
      (\<exists>g'. BSG_ReadEntry I g = Inr ((ent, None), g') \<and> bsg_r g' = rd'))
   \<and> BSG_Structure I g = Structure_m I (bsg_r g)"
proof -
  have "\<exists>g'. BSG_ReadEntry I g = Inr ((ent, None), g') \<and> bsg_r g' = rd'"
    if rd: "ReadEntry_m I (bsg_r g) = ((ent, None), rd')"
  proof (cases "bsg_stats g")
    case None
    obtain s' where "AddEntry (newStatGenerator (Value ent)) ent = Inr s'"
      using AddEntry_no_panic(1) by blast
    with rd None show ?thesis by (simp add: BSG_ReadEntry_def)
  next
    case (Some s)
    obtain s' where "AddEntry s ent = Inr s'"
      using AddEntry_no_panic(1) by blast
    with rd Some show ?thesis by (simp add: BSG_ReadEntry_def)
  qed
  then show ?thesis by (simp add: BSG_Structure_def)
qed

theorem C6_successful_read_is_forwarded_witness:
  "ReadEntry_m (scriptReader ''st'')
     (bsg_r \<lparr>bsg_r = [(\<lparr>Index = 4, Key = ''k'', Value = VString ''ab''\<rparr>, None)], bsg_stats = None\<rparr>)
     = ((\<lparr>Index = 4, Key = ''k'', Value = VString ''ab''\<rparr>, None), [])
   \<and> (\<exists>g'. BSG_ReadEntry (scriptReader ''st'')
              \<lparr>bsg_r = [(\<lparr>Index = 4, Key = ''k'', Value = VString ''ab''\<rparr>, None)], bsg_stats = None\<rparr>
            = Inr ((\<lparr>Index = 4, Key = ''k'', Value = VString ''ab''\<rparr>, None), g') \<and> bsg_r g' = [])
   \<and> BSG_Structure (scriptReader ''st'')
        \<lparr>bsg_r = [(\<lparr>Index = 4, Key = ''k'', Value = VString ''ab''\<rparr>, None)], bsg_stats = None\<rparr> = ''st''"
proof -
  let ?e = "\<lparr>Index = 4, Key = ''k'', Value = VString ''ab''\<rparr>"
  let ?g = "\<lparr>bsg_r = [(?e, None)], bsg_stats = None\<rparr>"
  have h: "ReadEntry_m (scriptReader ''st'') (bsg_r ?g) = ((?e, None), [])"
    by (simp add: scriptReader_def)
  have s: "Structure_m (scriptReader ''st'') (bsg_r ?g) = ''st''"
    by (simp add: scriptReader_def)
  from C6_successful_read_is_forwarded [of "scriptReader ''st''" ?g ?e "[]"] h s
  show ?thesis by simp
qed

text \<open>
  Claim C9. The statistics root of a new aggregator is nil, and a read that fails leaves
  a nil root nil. With a nil root \<^verbatim>\<open>Stats()\<close> and \<^verbatim>\<open>Close()\<close> call a method of a nil
  interface: both panic, \<^verbatim>\<open>Stats()\<close> returns no summary and \<^verbatim>\<open>Close()\<close> does not
  reach the wrapped reader's \<^verbatim>\<open>Close\<close>.
\<close>

theorem C9_unseeded_aggregator_panics:
  "bsg_stats (fst (NewBasicStatsGenerator rd)) = None
   \<and> BSG_Stats (fst (NewBasicStatsGenerator rd)) = Inl NilDereference
   \<and> BSG_Close I (fst (NewBasicStatsGenerator rd)) = Inl NilDereference
   \<and> (bsg_stats g = None \<longrightarrow>
        BSG_Stats g = Inl NilDereference \<and> BSG_Close I g = Inl NilDereference)
   \<and> (bsg_stats g = None \<and> BSG_ReadEntry I g = Inr ((ent, Some x), g') \<longrightarrow>
        bsg_stats g' = None)"
  by (auto simp: NewBasicStatsGenerator_def BSG_Stats_def BSG_Close_def BSG_ReadEntry_def Let_def
           split: prod.splits option.splits sum.splits if_splits)

theorem C9_unseeded_aggregator_panics_witness:
  "bsg_stats \<lparr>bsg_r = [(\<lparr>Index = 0, Key = [], Value = VNull\<rparr>, Some (Error ''bad row''))],
              bsg_stats = None\<rparr> = None
   \<and> BSG_ReadEntry (scriptReader ())
        \<lparr>bsg_r = [(\<lparr>Index = 0, Key = [], Value = VNull\<rparr>, Some (Error ''bad row''))],
         bsg_stats = None\<rparr>
       = Inr ((\<lparr>Index = 0, Key = [], Value = VNull\<rparr>, Some (Error ''bad row'')),
              \<lparr>bsg_r = [], bsg_stats = None\<rparr>)
   \<and> BSG_Stats \<lparr>bsg_r = ([] :: (Entry \<times> error option) list), bsg_stats = None\<rparr>
       = Inl NilDereference
   \<and> BSG_Close (scriptReader ()) \<lparr>bsg_r = [], bsg_stats = None\<rparr> = Inl NilDereference"
proof -
  let ?e = "\<lparr>Index = 0, Key = [], Value = VNull\<rparr>"
  let ?g = "\<lparr>bsg_r = [(?e, Some (Error ''bad row''))], bsg_stats = None\<rparr>"
  let ?g' = "\<lparr>bsg_r = ([] :: (Entry \<times> error option) list), bsg_stats = None\<rparr>"
  have rd: "BSG_ReadEntry (scriptReader ()) ?g = Inr ((?e, Some (Error ''bad row'')), ?g')"
    by (simp add: BSG_ReadEntry_def scriptReader_def)
  from C9_unseeded_aggregator_panics [of "[]" "scriptReader ()" ?g' ?e "Error ''bad row''" ?g']
       C9_unseeded_aggregator_panics [of "[]" "scriptReader ()" ?g ?e "Error ''bad row''" ?g'] rd
  show ?thesis by simp
qed

text \<open>
  Claim C8. \<^verbatim>\<open>Close\<close> of a statistics tree runs the \<^verbatim>\<open>Close\<close> method of every node of
  the tree, a parent before its children, and returns nil. \<^verbatim>\<open>Close\<close> of an aggregator
  that has a statistics tree closes the tree first, then calls the wrapped reader's
  \<^verbatim>\<open>Close\<close>, and returns what that call returned; the tree is left as it was.
\<close>

theorem C8_close_visits_every_node:
  "Close s = (all_nodes s, None)
   \<and> (bsg_stats g = Some s \<longrightarrow>
        BSG_Close I g = Inr (all_nodes s, fst (Close_m I (bsg_r g)),
                             g\<lparr>bsg_r := snd (Close_m I (bsg_r g))\<rparr>))"
  by (simp add: Close_all BSG_Close_def split: prod.splits)

theorem C8_close_visits_every_node_witness:
  "bsg_stats \<lparr>bsg_r = ([] :: (Entry \<times> error option) list),
              bsg_stats = Some (ObjectStat [(''n'', NumericStat ''integer'' 1 (F64 1) (F64 1))])\<rparr>
     = Some (ObjectStat [(''n'', NumericStat ''integer'' 1 (F64 1) (F64 1))])
   \<and> BSG_Close (scriptReader ())
         \<lparr>bsg_r = [], bsg_stats = Some (ObjectStat [(''n'', NumericStat ''integer'' 1 (F64 1) (F64 1))])\<rparr>
       = Inr ([ObjectStat [(''n'', NumericStat ''integer'' 1 (F64 1) (F64 1))],
               NumericStat ''integer'' 1 (F64 1) (F64 1)],
              None,
              \<lparr>bsg_r = [], bsg_stats = Some (ObjectStat [(''n'', NumericStat ''integer'' 1 (F64 1) (F64 1))])\<rparr>)"
  using C8_close_visits_every_node
          [of "ObjectStat [(''n'', NumericStat ''integer'' 1 (F64 1) (F64 1))]"
              "\<lparr>bsg_r = [], bsg_stats = Some (ObjectStat [(''n'', NumericStat ''integer'' 1 (F64 1) (F64 1))])\<rparr>"
              "scriptReader ()"]
  by (simp add: scriptReader_def)

section \<open>The nodes of the statistics tree\<close>

text \<open>
  Claim C3. A new node has the variant of the type-switch case of the value it is made
  for. \<^verbatim>\<open>AddEntry\<close> returns without a panic, and the node it leaves has the variant the
  node had. A value whose type is not the one of the node's variant leaves the node as it
  was. A successful read through the aggregator seeds the root from the entry's value when
  the root is nil, and keeps the variant of the root otherwise.
\<close>

theorem C3_variant_fixed_by_first_value:
  "variant_of (newStatGenerator v) = typeOf v
   \<and> (\<exists>s'. AddEntry s e = Inr s' \<and> variant_of s' = variant_of s)
   \<and> (typeOf (Value e) \<noteq> variant_of s \<longrightarrow> AddEntry s e = Inr s)
   \<and> (ReadEntry_m I (bsg_r g) = ((ent, None), rd') \<longrightarrow>
        (\<exists>s'. BSG_ReadEntry I g = Inr ((ent, None), g\<lparr>bsg_r := rd', bsg_stats := Some s'\<rparr>)
              \<and> variant_of s' = (case bsg_stats g of
                                    None \<Rightarrow> typeOf (Value ent)
                                  | Some s \<Rightarrow> variant_of s)))"
proof -
  have a: "\<exists>s'. AddEntry s e = Inr s' \<and> variant_of s' = variant_of s"
    using AddEntry_no_panic(1) [of s e] AddEntry_variant by blast
  have b: "\<exists>s'. BSG_ReadEntry I g = Inr ((ent, None), g\<lparr>bsg_r := rd', bsg_stats := Some s'\<rparr>)
              \<and> variant_of s' = (case bsg_stats g of
                                    None \<Rightarrow> typeOf (Value ent)
                                  | Some s \<Rightarrow> variant_of s)"
    if rd: "ReadEntry_m I (bsg_r g) = ((ent, None), rd')"
  proof -
    from BSG_ReadEntry_success [OF rd] obtain s' where
      s': "AddEntry (case bsg_stats g of None \<Rightarrow> newStatGenerator (Value ent) | Some s \<Rightarrow> s) ent = Inr s'"
      and r: "BSG_ReadEntry I g = Inr ((ent, None), g\<lparr>bsg_r := rd', bsg_stats := Some s'\<rparr>)"
      by blast
    have "variant_of s' = (case bsg_stats g of None \<Rightarrow> typeOf (Value ent) | Some s \<Rightarrow> variant_of s)"
      using AddEntry_variant [OF s'] by (simp add: variant_newStatGenerator split: option.splits)
    with r show ?thesis by blast
  qed
  show ?thesis using a b by (simp add: variant_newStatGenerator AddEntry_other_type)
qed

theorem C3_variant_fixed_by_first_value_witness:
  "typeOf (Value \<lparr>Index = 0, Key = [], Value = VInt 7\<rparr>) \<noteq> variant_of (StringStat 1 2 2)
   \<and> AddEntry (StringStat 1 2 2) \<lparr>Index = 0, Key = [], Value = VInt 7\<rparr> = Inr (StringStat 1 2 2)
   \<and> ReadEntry_m (scriptReader ())
         (bsg_r \<lparr>bsg_r = [(\<lparr>Index = 0, Key = [], Value = VInt 7\<rparr>, None)], bsg_stats = None\<rparr>)
       = ((\<lparr>Index = 0, Key = [], Value = VInt 7\<rparr>, None), [])
   \<and> (\<exists>s'. BSG_ReadEntry (scriptReader ())
               \<lparr>bsg_r = [(\<lparr>Index = 0, Key = [], Value = VInt 7\<rparr>, None)], bsg_stats = None\<rparr>
             = Inr ((\<lparr>Index = 0, Key = [], Value = VInt 7\<rparr>, None),
                    \<lparr>bsg_r = [], bsg_stats = Some s'\<rparr>)
           \<and> variant_of s' = NumericV)"
proof -
  let ?e = "\<lparr>Index = 0, Key = [], Value = VInt 7\<rparr>"
  let ?g = "\<lparr>bsg_r = [(?e, None)], bsg_stats = None\<rparr>"
  have h: "ReadEntry_m (scriptReader ()) (bsg_r ?g) = ((?e, None), [])"
    by (simp add: scriptReader_def)
  have t: "typeOf (Value ?e) \<noteq> variant_of (StringStat 1 2 2)"
    by simp
  from C3_variant_fixed_by_first_value
         [where s = "StringStat 1 2 2" and e = ?e and I = "scriptReader ()" and g = ?g
            and ent = ?e and rd' = "[]"] h t
  show ?thesis by simp
qed

text \<open>
  Claim C7. An object node that observes a map value (a Go map: its keys are distinct)
  ends with a child for every key it had and every key of the value, and for no other
  key. A child whose key is not in the value is as it was. For a key of the value, the
  child is the result of \<^verbatim>\<open>AddEntry\<close>, with that key's value, on the child the node had
  for the key, or on a new node made for the value when it had none. An array node that
  observes a sequence value ends with as many children as it had, or as the sequence is
  long if that is more. The children past the end of the sequence are as they were. The
  child at position \<open>i\<close> of the sequence is the result of \<^verbatim>\<open>AddEntry\<close>, with the element
  at \<open>i\<close>, on the child the node had at \<open>i\<close>, or on a new node made for the element when
  it had none.
\<close>

theorem C7_children_created_on_first_observation:
  "(Value e = VObject mapEntry \<and> distinct (map fst mapEntry) \<longrightarrow>
      (\<exists>children'.
          AddEntry (ObjectStat children) e = Inr (ObjectStat children')
        \<and> dom (map_of children') = dom (map_of children) \<union> fst ` set mapEntry
        \<and> (\<forall>key. key \<notin> fst ` set mapEntry \<longrightarrow> map_of children' key = map_of children key)
        \<and> (\<forall>(key, v) \<in> set mapEntry.
              \<exists>child'. AddEntry (case map_of children key of
                                    None \<Rightarrow> newStatGenerator v
                                  | Some child \<Rightarrow> child)
                           \<lparr>Index = 0, Key = key, Value = v\<rparr> = Inr child'
                      \<and> map_of children' key = Some child')))
   \<and> (Value e = VArray arrayEntry \<longrightarrow>
        (\<exists>elems'.
            AddEntry (ArrayStat elems) e = Inr (ArrayStat elems')
          \<and> length elems' = max (length elems) (length arrayEntry)
          \<and> (\<forall>i < length elems. length arrayEntry \<le> i \<longrightarrow> elems' ! i = elems ! i)
          \<and> (\<forall>i < length arrayEntry.
                AddEntry (if i < length elems then elems ! i else newStatGenerator (arrayEntry ! i))
                  \<lparr>Index = of_nat i, Key = [], Value = arrayEntry ! i\<rparr> = Inr (elems' ! i))))"
proof -
  have obj: "\<exists>children'.
          AddEntry (ObjectStat children) e = Inr (ObjectStat children')
        \<and> dom (map_of children') = dom (map_of children) \<union> fst ` set mapEntry
        \<and> (\<forall>key. key \<notin> fst ` set mapEntry \<longrightarrow> map_of children' key = map_of children key)
        \<and> (\<forall>(key, v) \<in> set mapEntry.
              \<exists>child'. AddEntry (case map_of children key of
                                    None \<Rightarrow> newStatGenerator v
                                  | Some child \<Rightarrow> child)
                           \<lparr>Index = 0, Key = key, Value = v\<rparr> = Inr child'
                      \<and> map_of children' key = Some child')"
    if v: "Value e = VObject mapEntry" and d: "distinct (map fst mapEntry)"
  proof -
    obtain children' where l: "objectAddLoop children mapEntry = Inr children'"
      using AddEntry_no_panic(2) by blast
    note ch = objectAddLoop_children [OF d l]
    have 1: "AddEntry (ObjectStat children) e = Inr (ObjectStat children')"
      using v l by simp
    have 2: "\<forall>key. key \<notin> fst ` set mapEntry \<longrightarrow> map_of children' key = map_of children key"
      using ch by blast
    have 3: "\<forall>(key, v) \<in> set mapEntry.
              \<exists>child'. AddEntry (case map_of children key of
                                    None \<Rightarrow> newStatGenerator v
                                  | Some child \<Rightarrow> child)
                           \<lparr>Index = 0, Key = key, Value = v\<rparr> = Inr child'
                      \<and> map_of children' key = Some child'"
      using ch by blast
    have 4: "dom (map_of children') = dom (map_of children) \<union> fst ` set mapEntry"
    proof (rule set_eqI)
      fix k
      show "k \<in> dom (map_of children') \<longleftrightarrow> k \<in> dom (map_of children) \<union> fst ` set mapEntry"
      proof (cases "k \<in> fst ` set mapEntry")
        case True
        then obtain v' where "(k, v') \<in> set mapEntry" by force
        with 3 have "map_of children' k \<noteq> None" by fastforce
        with True show ?thesis by auto
      next
        case False
        with 2 show ?thesis by (auto simp: dom_def)
      qed
    qed
    from 1 2 3 4 show ?thesis by blast
  qed
  have arr: "\<exists>elems'.
            AddEntry (ArrayStat elems) e = Inr (ArrayStat elems')
          \<and> length elems' = max (length elems) (length arrayEntry)
          \<and> (\<forall>i < length elems. length arrayEntry \<le> i \<longrightarrow> elems' ! i = elems ! i)
          \<and> (\<forall>i < length arrayEntry.
                AddEntry (if i < length elems then elems ! i else newStatGenerator (arrayEntry ! i))
                  \<lparr>Index = of_nat i, Key = [], Value = arrayEntry ! i\<rparr> = Inr (elems' ! i))"
    if v: "Value e = VArray arrayEntry"
  proof -
    obtain elems' where l: "arrayAddLoop elems 0 arrayEntry = Inr elems'"
      using AddEntry_no_panic(3) [of 0 elems arrayEntry] by auto
    have "0 \<le> length elems" by simp
    note ch = arrayAddLoop_children [OF this l]
    have 1: "AddEntry (ArrayStat elems) e = Inr (ArrayStat elems')"
      using v l by simp
    have 2: "length elems' = max (length elems) (length arrayEntry)"
      using ch by simp
    have 3: "\<forall>i < length elems. length arrayEntry \<le> i \<longrightarrow> elems' ! i = elems ! i"
      using ch by simp
    have 4: "\<forall>i < length arrayEntry.
                AddEntry (if i < length elems then elems ! i else newStatGenerator (arrayEntry ! i))
                  \<lparr>Index = of_nat i, Key = [], Value = arrayEntry ! i\<rparr> = Inr (elems' ! i)"
      using ch by (simp only: add_0_left) blast
    from 1 2 3 4 show ?thesis by blast
  qed
  from obj arr show ?thesis by blast
qed


theorem C7_children_created_on_first_observation_witness:
  "Value \<lparr>Index = 0, Key = [], Value = VObject [(''a'', VNull), (''b'', VBool True)]\<rparr>
     = VObject [(''a'', VNull), (''b'', VBool True)]
   \<and> distinct (map fst [(''a'', VNull), (''b'', VBool True)])
   \<and> (\<exists>children'.
          AddEntry (ObjectStat [(''a'', NullStat 1), (''c'', NullStat 4)])
            \<lparr>Index = 0, Key = [], Value = VObject [(''a'', VNull), (''b'', VBool True)]\<rparr>
            = Inr (ObjectStat children')
        \<and> dom (map_of children') = {''a'', ''b'', ''c''}
        \<and> map_of children' ''a'' = Some (NullStat 2)
        \<and> map_of children' ''b'' = Some (BoolStat 1 1 0)
        \<and> map_of children' ''c'' = Some (NullStat 4))
   \<and> Value \<lparr>Index = 1, Key = [], Value = VArray [VNull, VString ''xy'']\<rparr>
     = VArray [VNull, VString ''xy'']
   \<and> (\<exists>elems'.
          AddEntry (ArrayStat [NullStat 1]) \<lparr>Index = 1, Key = [], Value = VArray [VNull, VString ''xy'']\<rparr>
            = Inr (ArrayStat elems')
        \<and> length elems' = 2
        \<and> elems' ! 0 = NullStat 2
        \<and> elems' ! 1 = StringStat 1 2 2)"
proof -
  let ?m = "[(''a'', VNull), (''b'', VBool True)]"
  let ?ch = "[(''a'', NullStat 1), (''c'', NullStat 4)]"
  let ?e = "\<lparr>Index = 0, Key = [], Value = VObject ?m\<rparr>"
  let ?vs = "[VNull, VString ''xy'']"
  let ?e' = "\<lparr>Index = 1, Key = [], Value = VArray ?vs\<rparr>"
  have h1: "Value ?e = VObject ?m \<and> distinct (map fst ?m)" by simp
  have h2: "Value ?e' = VArray ?vs" by simp
  from C7_children_created_on_first_observation
         [where e = ?e and mapEntry = ?m and children = ?ch and arrayEntry = "[]" and elems = "[]"] h1
  obtain children' where
    o1: "AddEntry (ObjectStat ?ch) ?e = Inr (ObjectStat children')"
    and o2: "dom (map_of children') = dom (map_of ?ch) \<union> fst ` set ?m"
    and o3: "\<forall>key. key \<notin> fst ` set ?m \<longrightarrow> map_of children' key = map_of ?ch key"
    and o4: "\<forall>(key, v) \<in> set ?m.
              \<exists>child'. AddEntry (case map_of ?ch key of
                                    None \<Rightarrow> newStatGenerator v
                                  | Some child \<Rightarrow> child)
                           \<lparr>Index = 0, Key = key, Value = v\<rparr> = Inr child'
                      \<and> map_of children' key = Some child'"
    by blast
  from o2 have d: "dom (map_of children') = {''a'', ''b'', ''c''}" by auto
  from o3 have c: "map_of children' ''c'' = Some (NullStat 4)" by simp
  from o4 have a: "map_of children' ''a'' = Some (NullStat 2)" by simp
  from o4 have b: "map_of children' ''b'' = Some (BoolStat 1 1 0)" by simp
  from C7_children_created_on_first_observation
         [where e = ?e' and mapEntry = "[]" and children = "[]" and arrayEntry = ?vs
            and elems = "[NullStat 1]"] h2
  obtain elems' where
    a1: "AddEntry (ArrayStat [NullStat 1]) ?e' = Inr (ArrayStat elems')"
    and a2: "length elems' = max (length [NullStat 1]) (length ?vs)"
    and a4: "\<forall>i < length ?vs.
                AddEntry (if i < length [NullStat 1] then [NullStat 1] ! i else newStatGenerator (?vs ! i))
                  \<lparr>Index = of_nat i, Key = [], Value = ?vs ! i\<rparr> = Inr (elems' ! i)"
    by blast
  from a2 have l: "length elems' = 2" by simp
  from a4 [rule_format, of 0] have e0: "elems' ! 0 = NullStat 2" by simp
  from a4 [rule_format, of 1] have e1: "elems' ! 1 = StringStat 1 2 2"
    by (simp add: maxInt_def minInt_def)
  from h1 h2 o1 d a b c a1 l e0 e1 show ?thesis by blast
qed

text \<open>
  Claim C10. A numeric node starts from the same bounds whether an integer or a float
  made it. Whatever its \<^verbatim>\<open>typ\<close>, \<^verbatim>\<open>AddEntry\<close> with a value of type int, float32 or
  float64 adds one to the count, and replaces the minimum (maximum) by the value
  converted to float64 when that is smaller (greater); a value of any other type leaves
  the node as it was.
\<close>

theorem C10_numeric_node_accepts_all_numeric_types:
  "(numeric_value seed \<noteq> None \<longrightarrow>
      (\<exists>ty. newStatGenerator seed
              = NumericStat ty 0 (F64 9223372036854775808) (F64 (- 9223372036854775808))))
   \<and> (numeric_value (Value e) = Some v \<longrightarrow>
        AddEntry (NumericStat ty count mn mx) e
          = Inr (NumericStat ty (count + 1) (if f64_less v mn then v else mn)
                                            (if f64_greater v mx then v else mx)))
   \<and> (numeric_value (Value e) = None \<longrightarrow>
        AddEntry (NumericStat ty count mn mx) e = Inr (NumericStat ty count mn mx))"
proof -
  have "\<exists>ty. newStatGenerator seed
              = NumericStat ty 0 (F64 9223372036854775808) (F64 (- 9223372036854775808))"
    if "numeric_value seed \<noteq> None"
    using that by (cases seed) (simp_all add: float64_of_maxInt float64_of_minInt)
  moreover have "AddEntry (NumericStat ty count mn mx) e
          = Inr (NumericStat ty (count + 1) (if f64_less v mn then v else mn)
                                            (if f64_greater v mx then v else mx))"
    if "numeric_value (Value e) = Some v"
    using that by (cases "Value e") (simp_all add: Let_def)
  moreover have "AddEntry (NumericStat ty count mn mx) e = Inr (NumericStat ty count mn mx)"
    if "numeric_value (Value e) = None"
    using that by (cases "Value e") simp_all
  ultimately show ?thesis by blast
qed

theorem C10_numeric_node_accepts_all_numeric_types_witness:
  "numeric_value (VInt 1) \<noteq> None
   \<and> (\<exists>ty. newStatGenerator (VInt 1)
             = NumericStat ty 0 (F64 9223372036854775808) (F64 (- 9223372036854775808)))
   \<and> numeric_value (Value \<lparr>Index = 1, Key = [], Value = VFloat64 (F64 (5 / 2))\<rparr>) = Some (F64 (5 / 2))
   \<and> AddEntry (NumericStat ''integer'' 1 (F64 1) (F64 1))
         \<lparr>Index = 1, Key = [], Value = VFloat64 (F64 (5 / 2))\<rparr>
       = Inr (NumericStat ''integer'' 2 (F64 1) (F64 (5 / 2)))
   \<and> numeric_value (Value \<lparr>Index = 2, Key = [], Value = VString ''x''\<rparr>) = None
   \<and> AddEntry (NumericStat ''number'' 1 (F64 1) (F64 1)) \<lparr>Index = 2, Key = [], Value = VString ''x''\<rparr>
       = Inr (NumericStat ''number'' 1 (F64 1) (F64 1))"
  using C10_numeric_node_accepts_all_numeric_types
          [where seed = "VInt 1" and e = "\<lparr>Index = 1, Key = [], Value = VFloat64 (F64 (5 / 2))\<rparr>"
             and v = "F64 (5 / 2)" and ty = "''integer''" and count = 1 and mn = "F64 1" and mx = "F64 1"]
        C10_numeric_node_accepts_all_numeric_types
          [where seed = "VInt 1" and e = "\<lparr>Index = 2, Key = [], Value = VString ''x''\<rparr>"
             and v = "F64 0" and ty = "''number''" and count = 1 and mn = "F64 1" and mx = "F64 1"]
  by (simp add: f64_greater_def)

section \<open>Summaries\<close>

text \<open>
  Claim C1. Let the first five reads of the wrapped reader succeed, with entries whose
  values are objects (Go maps: the keys of each are distinct). Then five reads through a
  new aggregator return these entries, and \<^verbatim>\<open>Stats()\<close> returns a map. If the field
  \<open>n\<close> of the five entries holds numbers (int, float32 or float64) whose float64 values
  are 1, 2, 3, 4, 5, the map has for \<open>n\<close> the summary \<open>{count: 5, min: 1, max: 5}\<close>. If a
  field is null in all five entries, the map has for this field the summary
  \<open>{count: 5}\<close>.
\<close>

theorem C1_five_entries_summary:
  assumes rd: "reads I rd 5 = map (\<lambda>e. (e, None)) es"
    and objs: "\<forall>e \<in> set es. \<exists>m. Value e = VObject m \<and> distinct (map fst m)"
  shows "(map (\<lambda>e. case fieldValue (Value e) ''n'' of None \<Rightarrow> None | Some x \<Rightarrow> numeric_value x) es
            = [Some (F64 1), Some (F64 2), Some (F64 3), Some (F64 4), Some (F64 5)] \<longrightarrow>
          (\<exists>g sm. BSG_ReadEntries I (fst (NewBasicStatsGenerator rd)) 5
                     = Inr (map (\<lambda>e. (e, None)) es, g)
                 \<and> BSG_Stats g = Inr (SMap sm)
                 \<and> map_of sm ''n'' = Some (SMap [(''count'', SInt 5), (''min'', SFloat (F64 1)),
                                                  (''max'', SFloat (F64 5))])))
       \<and> ((\<forall>e \<in> set es. fieldValue (Value e) f = Some VNull) \<longrightarrow>
          (\<exists>g sm. BSG_ReadEntries I (fst (NewBasicStatsGenerator rd)) 5
                     = Inr (map (\<lambda>e. (e, None)) es, g)
                 \<and> BSG_Stats g = Inr (SMap sm)
                 \<and> map_of sm f = Some (SMap [(''count'', SInt 5)])))"
proof -
  from rd length_reads [of I rd 5] have len: "length es = 5"
    by (metis length_map)
  then have ne: "es \<noteq> []" by auto
  have stats: "\<exists>sm. BSG_Stats g = Inr (SMap sm) \<and> map_of sm key = Some (Stats child)"
    if "bsg_stats g = Some (ObjectStat ch)" and "map_of ch key = Some child"
    for g :: "'a BasicStatsGenerator" and ch key child
    using that Stats_field [of ch key] by (simp add: BSG_Stats_def)
  have num: "\<exists>g sm. BSG_ReadEntries I (fst (NewBasicStatsGenerator rd)) 5
                     = Inr (map (\<lambda>e. (e, None)) es, g)
                 \<and> BSG_Stats g = Inr (SMap sm)
                 \<and> map_of sm ''n'' = Some (SMap [(''count'', SInt 5), (''min'', SFloat (F64 1)),
                                                  (''max'', SFloat (F64 5))])"
    if h: "map (\<lambda>e. case fieldValue (Value e) ''n'' of None \<Rightarrow> None | Some x \<Rightarrow> numeric_value x) es
            = [Some (F64 1), Some (F64 2), Some (F64 3), Some (F64 4), Some (F64 5)]"
  proof -
    have some: "(case fieldValue (Value e) ''n'' of None \<Rightarrow> None | Some x \<Rightarrow> numeric_value x) \<noteq> None"
      if "e \<in> set es" for e
    proof -
      from that have "(case fieldValue (Value e) ''n'' of None \<Rightarrow> None | Some x \<Rightarrow> numeric_value x)
            \<in> set (map (\<lambda>e. case fieldValue (Value e) ''n'' of None \<Rightarrow> None | Some x \<Rightarrow> numeric_value x) es)"
        by (rule imageI [of e "set es", folded set_map])
      then show ?thesis unfolding h by auto
    qed
    have fv: "fieldValue (Value e) ''n'' \<noteq> None" if "e \<in> set es" for e
      using some [OF that] by (cases "fieldValue (Value e) ''n''") simp_all
    have "\<forall>e \<in> set es. \<exists>m. Value e = VObject m \<and> distinct (map fst m) \<and> map_of m ''n'' \<noteq> None"
    proof
      fix e assume e: "e \<in> set es"
      with objs obtain m where m: "Value e = VObject m" "distinct (map fst m)" by blast
      with fv [OF e] have "map_of m ''n'' \<noteq> None" by simp
      with m show "\<exists>m. Value e = VObject m \<and> distinct (map fst m) \<and> map_of m ''n'' \<noteq> None"
        by blast
    qed
    from field_summary [OF rd ne this] obtain g ch where
      r: "BSG_ReadEntries I (fst (NewBasicStatsGenerator rd)) 5 = Inr (map (\<lambda>e. (e, None)) es, g)"
      and st: "bsg_stats g = Some (ObjectStat ch)"
      and f: "AddEntries None
                (map (\<lambda>x. \<lparr>Index = 0, Key = ''n'', Value = x\<rparr>)
                   (map (\<lambda>e. the (fieldValue (Value e) ''n'')) es))
              = Inr (map_of ch ''n'')"
      by blast
    have "map numeric_value (map (\<lambda>e. the (fieldValue (Value e) ''n'')) es)
            = map (\<lambda>e. case fieldValue (Value e) ''n'' of None \<Rightarrow> None | Some x \<Rightarrow> numeric_value x) es"
      using fv by (fastforce split: option.splits)
    with h AddEntries_one_to_five [of "map (\<lambda>e. the (fieldValue (Value e) ''n'')) es" "''n''"] f
    obtain ty where "map_of ch ''n'' = Some (NumericStat ty 5 (F64 1) (F64 5))"
      by auto
    from stats [OF st this] r show ?thesis by auto
  qed
  have null: "\<exists>g sm. BSG_ReadEntries I (fst (NewBasicStatsGenerator rd)) 5
                     = Inr (map (\<lambda>e. (e, None)) es, g)
                 \<and> BSG_Stats g = Inr (SMap sm)
                 \<and> map_of sm f = Some (SMap [(''count'', SInt 5)])"
    if h: "\<forall>e \<in> set es. fieldValue (Value e) f = Some VNull"
  proof -
    have "\<forall>e \<in> set es. \<exists>m. Value e = VObject m \<and> distinct (map fst m) \<and> map_of m f \<noteq> None"
    proof
      fix e assume e: "e \<in> set es"
      with objs obtain m where m: "Value e = VObject m" "distinct (map fst m)" by blast
      from h e have "fieldValue (Value e) f = Some VNull" by blast
      with m have "map_of m f \<noteq> None" by simp
      with m show "\<exists>m. Value e = VObject m \<and> distinct (map fst m) \<and> map_of m f \<noteq> None"
        by blast
    qed
    from field_summary [OF rd ne this] obtain g ch where
      r: "BSG_ReadEntries I (fst (NewBasicStatsGenerator rd)) 5 = Inr (map (\<lambda>e. (e, None)) es, g)"
      and st: "bsg_stats g = Some (ObjectStat ch)"
      and f: "AddEntries None
                (map (\<lambda>x. \<lparr>Index = 0, Key = f, Value = x\<rparr>)
                   (map (\<lambda>e. the (fieldValue (Value e) f)) es))
              = Inr (map_of ch f)"
      by blast
    have "\<forall>x \<in> set (map (\<lambda>e. the (fieldValue (Value e) f)) es). x = VNull"
      using h by simp
    with AddEntries_five_nulls [of "map (\<lambda>e. the (fieldValue (Value e) f)) es" f] len f
    have "map_of ch f = Some (NullStat 5)" by simp
    from stats [OF st this] r show ?thesis by auto
  qed
  from num null show ?thesis by blast
qed

theorem C1_five_entries_summary_witness:
  "reads (scriptReader ()) (map (\<lambda>e. (e, None)) entries_n) 5 = map (\<lambda>e. (e, None)) entries_n
   \<and> map (\<lambda>e. case Value e of VObject m \<Rightarrow> distinct (map fst m) | _ \<Rightarrow> False) entries_n
       = [True, True, True, True, True]
   \<and> map (\<lambda>e. case fieldValue (Value e) ''n'' of None \<Rightarrow> None | Some x \<Rightarrow> numeric_value x) entries_n
       = [Some (F64 1), Some (F64 2), Some (F64 3), Some (F64 4), Some (F64 5)]
   \<and> (\<exists>g sm. BSG_ReadEntries (scriptReader ())
                 (fst (NewBasicStatsGenerator (map (\<lambda>e. (e, None)) entries_n))) 5
               = Inr (map (\<lambda>e. (e, None)) entries_n, g)
             \<and> BSG_Stats g = Inr (SMap sm)
             \<and> map_of sm ''n'' = Some (SMap [(''count'', SInt 5), (''min'', SFloat (F64 1)),
                                              (''max'', SFloat (F64 5))]))
   \<and> reads (scriptReader ()) (map (\<lambda>e. (e, None)) entries_nil) 5 = map (\<lambda>e. (e, None)) entries_nil
   \<and> map (\<lambda>e. case Value e of VObject m \<Rightarrow> distinct (map fst m) | _ \<Rightarrow> False) entries_nil
       = [True, True, True, True, True]
   \<and> map (\<lambda>e. fieldValue (Value e) ''nil'') entries_nil
       = [Some VNull, Some VNull, Some VNull, Some VNull, Some VNull]
   \<and> (\<exists>g sm. BSG_ReadEntries (scriptReader ())
                 (fst (NewBasicStatsGenerator (map (\<lambda>e. (e, None)) entries_nil))) 5
               = Inr (map (\<lambda>e. (e, None)) entries_nil, g)
             \<and> BSG_Stats g = Inr (SMap sm)
             \<and> map_of sm ''nil'' = Some (SMap [(''count'', SInt 5)]))"
proof -
  have r1: "reads (scriptReader ()) (map (\<lambda>e. (e, None)) entries_n) 5 = map (\<lambda>e. (e, None)) entries_n"
    by (simp add: entries_n_def scriptReader_def eval_nat_numeral)
  have d1: "map (\<lambda>e. case Value e of VObject m \<Rightarrow> distinct (map fst m) | _ \<Rightarrow> False) entries_n
       = [True, True, True, True, True]"
    by (simp add: entries_n_def)
  have o1: "\<forall>e \<in> set entries_n. \<exists>m. Value e = VObject m \<and> distinct (map fst m)"
    by (simp add: entries_n_def)
  have n1: "map (\<lambda>e. case fieldValue (Value e) ''n'' of None \<Rightarrow> None | Some x \<Rightarrow> numeric_value x) entries_n
       = [Some (F64 1), Some (F64 2), Some (F64 3), Some (F64 4), Some (F64 5)]"
    by (simp add: entries_n_def float64_of_int_exact)
  have r2: "reads (scriptReader ()) (map (\<lambda>e. (e, None)) entries_nil) 5 = map (\<lambda>e. (e, None)) entries_nil"
    by (simp add: entries_nil_def scriptReader_def eval_nat_numeral)
  have d2: "map (\<lambda>e. case Value e of VObject m \<Rightarrow> distinct (map fst m) | _ \<Rightarrow> False) entries_nil
       = [True, True, True, True, True]"
    by (simp add: entries_nil_def)
  have o2: "\<forall>e \<in> set entries_nil. \<exists>m. Value e = VObject m \<and> distinct (map fst m)"
    by (simp add: entries_nil_def)
  have m2: "map (\<lambda>e. fieldValue (Value e) ''nil'') entries_nil
       = [Some VNull, Some VNull, Some VNull, Some VNull, Some VNull]"
    by (simp add: entries_nil_def)
  have n2: "\<forall>e \<in> set entries_nil. fieldValue (Value e) ''nil'' = Some VNull"
    by (simp add: entries_nil_def)
  from C1_five_entries_summary [OF r1 o1, of "''nil''"] n1
       C1_five_entries_summary [OF r2 o2, of "''nil''"] n2
       r1 d1 r2 d2 m2
  show ?thesis by blast
qed

text \<open>
  Claim C2, as stated: every leaf node with count 0 reports \<open>{count}\<close> alone. It fails
  for the boolean node: the node \<^verbatim>\<open>newStatGenerator\<close> makes for a boolean has count 0,
  and its \<^verbatim>\<open>Stats()\<close> has the three keys count, trueCount and falseCount.
\<close>

theorem C2_counterexample:
  "leaf_count (newStatGenerator (VBool True)) = Some 0
   \<and> Stats (newStatGenerator (VBool True))
       = SMap [(''count'', SInt 0), (''trueCount'', SInt 0), (''falseCount'', SInt 0)]
   \<and> Stats (newStatGenerator (VBool True)) \<noteq> SMap [(''count'', SInt 0)]"
  by simp

text \<open>
  Claim C2, amended. A numeric node and a string node report \<open>{count: 0}\<close> alone when the
  count is 0, and count with min and max (minLength and maxLength) otherwise. A boolean
  node reports count, trueCount and falseCount whatever the count, and a null node
  reports its count.
\<close>

theorem C2_leaf_summaries:
  "(count = 0 \<longrightarrow> Stats (NumericStat ty count mn mx) = SMap [(''count'', SInt 0)])
   \<and> (count \<noteq> 0 \<longrightarrow> Stats (NumericStat ty count mn mx)
          = SMap [(''count'', SInt count), (''min'', SFloat mn), (''max'', SFloat mx)])
   \<and> (count = 0 \<longrightarrow> Stats (StringStat count minLength maxLength) = SMap [(''count'', SInt 0)])
   \<and> (count \<noteq> 0 \<longrightarrow> Stats (StringStat count minLength maxLength)
          = SMap [(''count'', SInt count), (''minLength'', SInt minLength),
                  (''maxLength'', SInt maxLength)])
   \<and> Stats (BoolStat count trueCount falseCount)
       = SMap [(''count'', SInt count), (''trueCount'', SInt trueCount),
               (''falseCount'', SInt falseCount)]
   \<and> Stats (NullStat count) = SMap [(''count'', SInt count)]"
  by simp

theorem C2_leaf_summaries_witness:
  "Stats (NumericStat ''integer'' 0 (F64 9223372036854775808) (F64 (- 9223372036854775808)))
     = SMap [(''count'', SInt 0)]
   \<and> Stats (NumericStat ''integer'' 2 (F64 1) (F64 4))
     = SMap [(''count'', SInt 2), (''min'', SFloat (F64 1)), (''max'', SFloat (F64 4))]
   \<and> Stats (StringStat 0 maxInt minInt) = SMap [(''count'', SInt 0)]
   \<and> Stats (StringStat 3 1 5)
     = SMap [(''count'', SInt 3), (''minLength'', SInt 1), (''maxLength'', SInt 5)]
   \<and> Stats (BoolStat 0 0 0)
     = SMap [(''count'', SInt 0), (''trueCount'', SInt 0), (''falseCount'', SInt 0)]
   \<and> Stats (NullStat 0) = SMap [(''count'', SInt 0)]"
  using C2_leaf_summaries [of 0 "''integer''" "F64 9223372036854775808" "F64 (- 9223372036854775808)"
          maxInt minInt 0 0]
        C2_leaf_summaries [of 2 "''integer''" "F64 1" "F64 4" 1 5 0 0]
        C2_leaf_summaries [of 3 "''integer''" "F64 1" "F64 4" 1 5 0 0]
  by simp

section \<open>Construction of readers and writers\<close>

text \<open>
  Claim C4. Whatever the stream or sink, constructing a reader or a writer from a Schema
  Descriptor with an empty format fails with the error "structure must have a data
  format" and has read or written no byte; with format csv, json or cbor and a schema
  that is present, construction succeeds. The instances that follow the theorem are
  the rows of the table of \<^verbatim>\<open>TestNewEntryReader\<close> and \<^verbatim>\<open>TestNewEntryWriter\<close>, on an
  empty buffer.
\<close>

theorem C4_empty_format_fails_at_construction:
  "(Format st = [] \<longrightarrow>
      NewEntryReader st stream = (Inl (Error ''structure must have a data format''), 0)
      \<and> NewEntryWriter st sink = (Inl (Error ''structure must have a data format''), 0))
   \<and> (Format st \<in> {''csv'', ''json'', ''cbor''} \<and> Schema st \<noteq> None \<longrightarrow>
        (\<exists>rd. NewEntryReader st stream = (Inr rd, 0))
        \<and> (\<exists>wr. NewEntryWriter st sink = (Inr wr, 0)))"
  by (auto simp: NewEntryReader_def NewEntryWriter_def ParseDataFormat_def)

theorem C4_empty_format_fails_at_construction_witness:
  "Format \<lparr>Format = [], FormatConfig = [], Schema = None\<rparr> = []
   \<and> NewEntryReader \<lparr>Format = [], FormatConfig = [], Schema = None\<rparr> []
       = (Inl (Error ''structure must have a data format''), 0)
   \<and> NewEntryWriter \<lparr>Format = [], FormatConfig = [], Schema = None\<rparr> []
       = (Inl (Error ''structure must have a data format''), 0)
   \<and> Format \<lparr>Format = ''cbor'', FormatConfig = [], Schema = Some TopArray\<rparr> \<in> {''csv'', ''json'', ''cbor''}
   \<and> Format \<lparr>Format = ''json'', FormatConfig = [], Schema = Some TopArray\<rparr> \<in> {''csv'', ''json'', ''cbor''}
   \<and> Format \<lparr>Format = ''csv'', FormatConfig = [], Schema = Some TopArray\<rparr> \<in> {''csv'', ''json'', ''cbor''}
   \<and> Schema \<lparr>Format = ''json'', FormatConfig = [], Schema = Some TopArray\<rparr> \<noteq> None
   \<and> (\<exists>rd. NewEntryReader \<lparr>Format = ''cbor'', FormatConfig = [], Schema = Some TopArray\<rparr> []
            = (Inr rd, 0))
   \<and> (\<exists>rd. NewEntryReader \<lparr>Format = ''json'', FormatConfig = [], Schema = Some TopArray\<rparr> []
            = (Inr rd, 0))
   \<and> (\<exists>rd. NewEntryReader \<lparr>Format = ''csv'', FormatConfig = [], Schema = Some TopArray\<rparr> []
            = (Inr rd, 0))
   \<and> (\<exists>wr. NewEntryWriter \<lparr>Format = ''cbor'', FormatConfig = [], Schema = Some TopArray\<rparr> []
            = (Inr wr, 0))
   \<and> (\<exists>wr. NewEntryWriter \<lparr>Format = ''json'', FormatConfig = [], Schema = Some TopArray\<rparr> []
            = (Inr wr, 0))
   \<and> (\<exists>wr. NewEntryWriter \<lparr>Format = ''csv'', FormatConfig = [], Schema = Some TopArray\<rparr> []
            = (Inr wr, 0))"
  using C4_empty_format_fails_at_construction
          [of "\<lparr>Format = [], FormatConfig = [], Schema = None\<rparr>" "[]" "[]"]
        C4_empty_format_fails_at_construction
          [of "\<lparr>Format = ''cbor'', FormatConfig = [], Schema = Some TopArray\<rparr>" "[]" "[]"]
        C4_empty_format_fails_at_construction
          [of "\<lparr>Format = ''json'', FormatConfig = [], Schema = Some TopArray\<rparr>" "[]" "[]"]
        C4_empty_format_fails_at_construction
          [of "\<lparr>Format = ''csv'', FormatConfig = [], Schema = Some TopArray\<rparr>" "[]" "[]"]
  by simp

end
